theory Spec2Isabelle
  imports Main "HOL-Library.Monad_Syntax"
begin

section \<open>Code-Canvas: notes attached to lines of source files\<close>

text \<open>
  A shallow embedding of \<^verbatim>\<open>src/extension.ts\<close>. The extension keeps one global object
  \<^verbatim>\<open>notes\<close> from keys \<^verbatim>\<open>filePath::line\<close> to note texts, loads it from and saves it to a
  JSON file, and decorates the lines of an editor that carry a note.

  The host (VS Code, Node's \<^verbatim>\<open>fs\<close>, the JavaScript built-ins) is not part of the
  repository; each built-in the extension calls is modelled after its ECMAScript or Node
  definition, next to the place that uses it.
\<close>

subsection \<open>JavaScript strings\<close>

text \<open>
  A JavaScript string is a sequence of UTF-16 code units; a code unit is modelled as a
  natural number (below \<open>65536\<close> in every string the host produces). \<open>str\<close> reads an
  ASCII literal as such a string.
\<close>

type_synonym jsstring = "nat list"

definition str :: "string \<Rightarrow> jsstring" where
  "str s = map of_char s"

text \<open>
  \<^verbatim>\<open>String(n)\<close> for a line number \<open>n\<close>. A line is a JavaScript number with a
  non-negative integer value, and for such a number below \<open>2^53\<close> (every line of a
  document is) the text is its decimal digits. \<open>dec\<close> gives the digits of every natural
  number; from \<open>2^53\<close> on they are not the text of the host, which rounds the digits and,
  from \<open>10^21\<close> on, writes an exponent. A statement that depends on the digits of a key
  is made for lines below \<open>2^53\<close> only.
\<close>

fun dec :: "nat \<Rightarrow> jsstring" where
  "dec n = (if n < 10 then [48 + n] else dec (n div 10) @ [48 + n mod 10])"

declare dec.simps [simp del]

text \<open>
  \<^verbatim>\<open>s.replace(/\\/g, '/')\<close>: every backslash (code unit 92) becomes a slash (47).
\<close>

definition replace_backslashes :: "jsstring \<Rightarrow> jsstring" where
  "replace_backslashes s = map (\<lambda>c. if c = 92 then 47 else c) s"

text \<open>
  \<^verbatim>\<open>s.toLowerCase()\<close>. For a string of ASCII code units the result is the string with
  \<open>A\<close> to \<open>Z\<close> replaced by \<open>a\<close> to \<open>z\<close>: the Unicode case conversion maps no other ASCII
  character, and its rules that look at the context or change the length concern no ASCII
  character. For a string with a code unit outside ASCII the result comes from the Unicode
  case tables of the host, which are no part of the repository: it is the parameter
  \<open>unicode_lower\<close> applied to the string. Every function below that lowercases takes this
  parameter, and every statement about them holds for each value of it.
\<close>

definition ascii_lower :: "nat \<Rightarrow> nat" where
  "ascii_lower c = (if 65 \<le> c \<and> c \<le> 90 then c + 32 else c)"

definition toLowerCase :: "(jsstring \<Rightarrow> jsstring) \<Rightarrow> jsstring \<Rightarrow> jsstring" where
  "toLowerCase unicode_lower s =
     (if list_all (\<lambda>c. c < 128) s then map ascii_lower s else unicode_lower s)"

text \<open>
  \<^verbatim>\<open>key.split('::')\<close>: the segments between the occurrences of the separator, found
  from left to right. The result always has a first segment, so it is a pair of the first
  segment and the list of the others.
\<close>

fun split_sep :: "jsstring \<Rightarrow> jsstring \<times> jsstring list" where
  "split_sep [] = ([], [])"
| "split_sep [c] = ([c], [])"
| "split_sep (a # b # cs) =
     (if a = 58 \<and> b = 58
      then ([], (case split_sep cs of (s, ss) \<Rightarrow> s # ss))
      else (case split_sep (b # cs) of (s, ss) \<Rightarrow> (a # s, ss)))"

text \<open>
  \<^verbatim>\<open>parseInt(x, 10)\<close>. The argument is converted to a string (\<^verbatim>\<open>undefined\<close> becomes
  \<^verbatim>\<open>"undefined"\<close>), leading white space is skipped, one sign is read, and the longest
  prefix of decimal digits is the value; the rest of the string is ignored. With no digit
  the result is \<^verbatim>\<open>NaN\<close>, here \<open>None\<close>. The value is the exact integer: the host rounds
  values from \<open>2^53\<close> on to a double, which stays above every line count.
\<close>

definition is_white_space :: "nat \<Rightarrow> bool" where
  "is_white_space c \<longleftrightarrow>
     c \<in> set [9, 10, 11, 12, 13, 32, 160, 5760, 8232, 8233, 8239, 8287, 12288, 65279]
     \<or> (8192 \<le> c \<and> c \<le> 8202)"

definition is_digit :: "nat \<Rightarrow> bool" where
  "is_digit c \<longleftrightarrow> 48 \<le> c \<and> c \<le> 57"

definition digits_value :: "jsstring \<Rightarrow> nat" where
  "digits_value z = foldl (\<lambda>a c. 10 * a + (c - 48)) 0 z"

definition parseInt_string :: "jsstring \<Rightarrow> int option" where
  "parseInt_string inputString =
     (let s = dropWhile is_white_space inputString;
          negative = (case s of [] \<Rightarrow> False | c # _ \<Rightarrow> c = 45);
          s' = (case s of [] \<Rightarrow> [] | c # r \<Rightarrow> if c = 43 \<or> c = 45 then r else s);
          z = takeWhile is_digit s'
      in if z = [] then None
         else Some (if negative then - int (digits_value z) else int (digits_value z)))"

definition parseInt :: "jsstring option \<Rightarrow> int option" where
  "parseInt x = parseInt_string (case x of None \<Rightarrow> str ''undefined'' | Some s \<Rightarrow> s)"

subsection \<open>The key of a note\<close>

text \<open>The template literal \<^verbatim>\<open>`${filePath}::${line}`\<close> of both commands and of the hover.\<close>

definition noteKey :: "jsstring \<Rightarrow> nat \<Rightarrow> jsstring" where
  "noteKey filePath line = filePath @ str ''::'' @ dec line"

subsection \<open>Editors and decorations\<close>

text \<open>
  What the extension reads of a \<^verbatim>\<open>vscode.TextEditor\<close>: the path of its document
  (\<^verbatim>\<open>document.uri.fsPath\<close>), the number of lines of the document, and the line of the
  cursor (\<^verbatim>\<open>selection.active.line\<close>).
\<close>

record editor =
  fsPath :: jsstring
  lineCount :: nat
  cursorLine :: nat

text \<open>
  The hover text of a note is a Markdown string made of a fixed icon and label, the text
  of the note, and a command link to \<^verbatim>\<open>code-canvas.editNote\<close> whose arguments are the
  JSON object \<^verbatim>\<open>{ filePath, line }\<close>. The model keeps the three parts that vary.
\<close>

record hover_text =
  note_text :: jsstring
  link_filePath :: jsstring
  link_line :: nat

text \<open>
  A \<^verbatim>\<open>vscode.DecorationOptions\<close>: the range \<^verbatim>\<open>new vscode.Range(line, 0, line, 0)\<close>
  and the hover message.
\<close>

record decoration =
  range_line :: nat
  hoverMessage :: hover_text

datatype exn = IllegalArgument | SyntaxError | FsError

text \<open>
  \<^verbatim>\<open>new vscode.Range(line, 0, line, 0)\<close> builds two positions, and the constructor of a
  position throws for a negative line.
\<close>

definition new_Range :: "int \<Rightarrow> exn + nat" where
  "new_Range line = (if line < 0 then Inl IllegalArgument else Inr (nat line))"

text \<open>
  The loop of \<^verbatim>\<open>updateDecorations\<close> over \<^verbatim>\<open>Object.entries(notes)\<close>: the decorations
  pushed for one editor, in the order of the entries. An exception of the loop body would
  end the loop; the result is then \<open>Inl\<close>.
\<close>

fun decorations_of ::
  "(jsstring \<Rightarrow> jsstring) \<Rightarrow> editor \<Rightarrow> (jsstring \<times> jsstring) list \<Rightarrow> exn + decoration list" where
  "decorations_of unicode_lower editor [] = Inr []"
| "decorations_of unicode_lower editor ((key, note) # entries) =
     (let (filePath, more) = split_sep key;
          lineStr = (case more of [] \<Rightarrow> None | l # _ \<Rightarrow> Some l);
          normalizedFilePath = toLowerCase unicode_lower (replace_backslashes filePath);
          normalizedEditorPath = toLowerCase unicode_lower (replace_backslashes (fsPath editor))
      in if normalizedFilePath = normalizedEditorPath then
           (case parseInt lineStr of
              None \<Rightarrow> decorations_of unicode_lower editor entries
            | Some line \<Rightarrow>
                if line \<ge> 0 \<and> line < int (lineCount editor) then
                  (case new_Range line of
                     Inl e \<Rightarrow> Inl e
                   | Inr r \<Rightarrow>
                       (case decorations_of unicode_lower editor entries of
                          Inl e \<Rightarrow> Inl e
                        | Inr ds \<Rightarrow>
                            Inr (\<lparr>range_line = r,
                                  hoverMessage = \<lparr>note_text = note, link_filePath = filePath,
                                                  link_line = nat line\<rparr>\<rparr> # ds)))
                else decorations_of unicode_lower editor entries)
         else decorations_of unicode_lower editor entries)"

text \<open>
  Names for the parts of the loop body, used to state what the loop does: the two
  segments the destructuring \<^verbatim>\<open>[filePath, lineStr]\<close> takes of a key (\<^verbatim>\<open>lineStr\<close> is
  \<^verbatim>\<open>undefined\<close> when the key has no separator), the normal form in which paths are
  compared, and the decorations one entry adds.
\<close>

definition key_filePath :: "jsstring \<Rightarrow> jsstring" where
  "key_filePath key = fst (split_sep key)"

definition key_lineStr :: "jsstring \<Rightarrow> jsstring option" where
  "key_lineStr key = (case snd (split_sep key) of [] \<Rightarrow> None | l # _ \<Rightarrow> Some l)"

definition normalizePath :: "(jsstring \<Rightarrow> jsstring) \<Rightarrow> jsstring \<Rightarrow> jsstring" where
  "normalizePath unicode_lower p = toLowerCase unicode_lower (replace_backslashes p)"

definition entry_decorations ::
  "(jsstring \<Rightarrow> jsstring) \<Rightarrow> editor \<Rightarrow> jsstring \<times> jsstring \<Rightarrow> decoration list" where
  "entry_decorations unicode_lower editor entry =
     (if normalizePath unicode_lower (key_filePath (fst entry)) = normalizePath unicode_lower (fsPath editor) then
        (case parseInt (key_lineStr (fst entry)) of
           None \<Rightarrow> []
         | Some line \<Rightarrow>
             if 0 \<le> line \<and> line < int (lineCount editor) then
               [\<lparr>range_line = nat line,
                 hoverMessage = \<lparr>note_text = snd entry, link_filePath = key_filePath (fst entry),
                                 link_line = nat line\<rparr>\<rparr>]
             else [])
      else [])"

subsection \<open>The notes object\<close>

text \<open>
  \<^verbatim>\<open>notes\<close> is an ordinary object whose own properties are the notes. It is modelled as
  the list of its own properties in the order \<^verbatim>\<open>Object.entries\<close> and
  \<^verbatim>\<open>JSON.stringify\<close> enumerate them: first the keys that are array indices (canonical
  decimal numerals below \<open>2^32 - 1\<close>) in ascending order, then the other keys in the order
  of their creation.
\<close>

definition array_index :: "jsstring \<Rightarrow> nat option" where
  "array_index k =
     (if k \<noteq> [] \<and> list_all is_digit k \<and> (k = [48] \<or> hd k \<noteq> 48) \<and> digits_value k < 4294967295
      then Some (digits_value k) else None)"

fun insert_index :: "nat \<Rightarrow> jsstring \<times> 'v \<Rightarrow> (jsstring \<times> 'v) list \<Rightarrow> (jsstring \<times> 'v) list" where
  "insert_index i e [] = [e]"
| "insert_index i e (p # ps) =
     (case array_index (fst p) of
        None \<Rightarrow> e # p # ps
      | Some j \<Rightarrow> if j < i then p # insert_index i e ps else e # p # ps)"

text \<open>
  Defining the own property \<open>k\<close> with value \<open>v\<close>: an existing property keeps its place
  and gets the value; a new one is enumerated after the indices below it when \<open>k\<close> is an
  array index, and last otherwise. This is what \<^verbatim>\<open>JSON.parse\<close> does for each member, and
  what the assignment \<^verbatim>\<open>notes[noteKey] = note\<close> does: an assignment first looks for a
  setter on \<^verbatim>\<open>Object.prototype\<close>, whose only accessor is \<^verbatim>\<open>__proto__\<close>, and a
  \<open>noteKey\<close> holds two colons. For the same reason a read \<^verbatim>\<open>notes[noteKey]\<close> finds an
  own property or nothing, and is the lookup \<open>map_of\<close>.
\<close>

definition obj_put :: "(jsstring \<times> 'v) list \<Rightarrow> jsstring \<Rightarrow> 'v \<Rightarrow> (jsstring \<times> 'v) list" where
  "obj_put obj k v =
     (if k \<in> fst ` set obj then map (\<lambda>(k', v'). if k' = k then (k', v) else (k', v')) obj
      else (case array_index k of
              None \<Rightarrow> obj @ [(k, v)]
            | Some i \<Rightarrow> insert_index i (k, v) obj))"

text \<open>
  The invariant of the list of own properties: no key twice, and the enumeration order
  above.
\<close>

fun key_order :: "jsstring list \<Rightarrow> bool" where
  "key_order [] = True"
| "key_order (k # ks) =
     (key_order ks \<and>
      (case array_index k of
         None \<Rightarrow> list_all (\<lambda>k'. array_index k' = None) ks
       | Some i \<Rightarrow> list_all (\<lambda>k'. case array_index k' of None \<Rightarrow> True | Some j \<Rightarrow> i < j) ks))"

definition obj_ok :: "(jsstring \<times> 'v) list \<Rightarrow> bool" where
  "obj_ok obj \<longleftrightarrow> distinct (map fst obj) \<and> key_order (map fst obj)"

subsection \<open>JSON\<close>

text \<open>
  The values \<^verbatim>\<open>JSON.parse\<close> returns. A number is kept as its lexeme; an object is the
  list of its own properties.
\<close>

datatype json =
    JNull
  | JBool bool
  | JNumber jsstring
  | JString jsstring
  | JArray "json list"
  | JObject "(jsstring \<times> json) list"

datatype token =
    LBrace | RBrace | LBracket | RBracket | Comma | Colon
  | TString jsstring | TNumber jsstring | TTrue | TFalse | TNull

definition hex_value :: "nat \<Rightarrow> nat option" where
  "hex_value c =
     (if 48 \<le> c \<and> c \<le> 57 then Some (c - 48)
      else if 97 \<le> c \<and> c \<le> 102 then Some (c - 87)
      else if 65 \<le> c \<and> c \<le> 70 then Some (c - 55)
      else None)"

definition unescape :: "nat \<Rightarrow> nat option" where
  "unescape e =
     (if e = 34 then Some 34            \<comment> \<open>an escaped quote\<close>
      else if e = 92 then Some 92       \<comment> \<open>an escaped backslash\<close>
      else if e = 47 then Some 47       \<comment> \<open>an escaped slash\<close>
      else if e = 98 then Some 8        \<comment> \<open>b: backspace\<close>
      else if e = 102 then Some 12      \<comment> \<open>f: form feed\<close>
      else if e = 110 then Some 10      \<comment> \<open>n: line feed\<close>
      else if e = 114 then Some 13      \<comment> \<open>r: carriage return\<close>
      else if e = 116 then Some 9       \<comment> \<open>t: tab\<close>
      else None)"

text \<open>
  The characters of a JSON string after its opening quote: the string they denote and
  the text after the closing quote. A control character, an unknown escape and a missing
  closing quote are syntax errors (\<open>None\<close>).
\<close>

fun scan_string :: "jsstring \<Rightarrow> (jsstring \<times> jsstring) option" where
  "scan_string [] = None"
| "scan_string (c # cs) =
     (if c = 34 then Some ([], cs)
      else if c = 92 then
        (case cs of
           [] \<Rightarrow> None
         | e # cs' \<Rightarrow>
             if e = 117 then
               (case cs' of
                  h1 # h2 # h3 # h4 # cs'' \<Rightarrow>
                    (case (hex_value h1, hex_value h2, hex_value h3, hex_value h4) of
                       (Some d1, Some d2, Some d3, Some d4) \<Rightarrow>
                         (case scan_string cs'' of
                            None \<Rightarrow> None
                          | Some (s, rest) \<Rightarrow> Some ((4096 * d1 + 256 * d2 + 16 * d3 + d4) # s, rest))
                     | _ \<Rightarrow> None)
                | _ \<Rightarrow> None)
             else
               (case unescape e of
                  None \<Rightarrow> None
                | Some u \<Rightarrow>
                    (case scan_string cs' of
                       None \<Rightarrow> None
                     | Some (s, rest) \<Rightarrow> Some (u # s, rest))))
      else if c < 32 then None
      else (case scan_string cs of
              None \<Rightarrow> None
            | Some (s, rest) \<Rightarrow> Some (c # s, rest)))"

text \<open>
  A JSON number at the head of the text: an optional minus, \<open>0\<close> or a numeral without
  leading zero, an optional fraction, an optional exponent. The result is the lexeme and
  the text after it.
\<close>

definition scan_digits :: "jsstring \<Rightarrow> (jsstring \<times> jsstring) option" where
  "scan_digits cs =
     (if takeWhile is_digit cs = [] then None
      else Some (takeWhile is_digit cs, dropWhile is_digit cs))"

definition scan_number :: "jsstring \<Rightarrow> (jsstring \<times> jsstring) option" where
  "scan_number cs =
     (let (sign, r0) = (case cs of c # r \<Rightarrow> if c = 45 then ([c], r) else ([], cs) | [] \<Rightarrow> ([], cs))
      in case (case r0 of
                 [] \<Rightarrow> None
               | d # r \<Rightarrow> if d = 48 then Some ([d], r) else scan_digits r0) of
           None \<Rightarrow> None
         | Some (whole, r1) \<Rightarrow>
             (case (case r1 of
                      [] \<Rightarrow> Some ([], r1)
                    | p # r \<Rightarrow>
                        if p = 46 then
                          (case scan_digits r of None \<Rightarrow> None | Some (ds, r') \<Rightarrow> Some (p # ds, r'))
                        else Some ([], r1)) of
                None \<Rightarrow> None
              | Some (frac, r2) \<Rightarrow>
                  (case (case r2 of
                           [] \<Rightarrow> Some ([], r2)
                         | x # r \<Rightarrow>
                             if x = 69 \<or> x = 101 then
                               (let (esign, r') =
                                      (case r of
                                         g # r'' \<Rightarrow> if g = 43 \<or> g = 45 then ([g], r'') else ([], r)
                                       | [] \<Rightarrow> ([], r))
                                in case scan_digits r' of
                                     None \<Rightarrow> None
                                   | Some (ds, r'') \<Rightarrow> Some (x # esign @ ds, r''))
                             else Some ([], r2)) of
                     None \<Rightarrow> None
                   | Some (expo, r3) \<Rightarrow> Some (sign @ whole @ frac @ expo, r3))))"

lemma scan_string_shorter: "scan_string cs = Some (s, rest) \<Longrightarrow> length rest < length cs"
proof (induction cs arbitrary: s rest rule: scan_string.induct)
  case 1
  then show ?case by simp
next
  case (2 c cs)
  then show ?case
    by (auto split: if_splits list.splits option.splits prod.splits simp: less_Suc_eq)
qed

lemma scan_digits_shorter: "scan_digits cs = Some (ds, rest) \<Longrightarrow> length rest < length cs"
proof -
  assume a: "scan_digits cs = Some (ds, rest)"
  then have tw: "takeWhile is_digit cs \<noteq> []" and r: "rest = dropWhile is_digit cs"
    by (auto simp: scan_digits_def split: if_splits)
  have "length (takeWhile is_digit cs) + length (dropWhile is_digit cs) = length cs"
    by (metis length_append takeWhile_dropWhile_id)
  moreover from tw have "0 < length (takeWhile is_digit cs)"
    by simp
  ultimately show ?thesis
    unfolding r by linarith
qed

lemma scan_number_shorter: "scan_number (c # cs) = Some (n, rest) \<Longrightarrow> length rest \<le> length cs"
  unfolding scan_number_def
  apply (auto simp: Let_def split: if_splits list.splits option.splits prod.splits dest!: scan_digits_shorter)
  done

text \<open>
  The tokens of a JSON text. White space between tokens is tab, line feed, carriage
  return and space; anything that starts no token is a syntax error (\<open>None\<close>).
\<close>

function lex :: "jsstring \<Rightarrow> token list option" where
  "lex [] = Some []"
| "lex (c # cs) =
     (if c = 9 \<or> c = 10 \<or> c = 13 \<or> c = 32 then lex cs
      else if c = 123 then map_option (Cons LBrace) (lex cs)
      else if c = 125 then map_option (Cons RBrace) (lex cs)
      else if c = 91 then map_option (Cons LBracket) (lex cs)
      else if c = 93 then map_option (Cons RBracket) (lex cs)
      else if c = 44 then map_option (Cons Comma) (lex cs)
      else if c = 58 then map_option (Cons Colon) (lex cs)
      else if c = 34 then
        (case scan_string cs of
           None \<Rightarrow> None
         | Some (s, rest) \<Rightarrow> map_option (Cons (TString s)) (lex rest))
      else if c = 45 \<or> is_digit c then
        (case scan_number (c # cs) of
           None \<Rightarrow> None
         | Some (n, rest) \<Rightarrow> map_option (Cons (TNumber n)) (lex rest))
      else if take 4 (c # cs) = [116, 114, 117, 101] then map_option (Cons TTrue) (lex (drop 3 cs))
      else if take 5 (c # cs) = [102, 97, 108, 115, 101] then map_option (Cons TFalse) (lex (drop 4 cs))
      else if take 4 (c # cs) = [110, 117, 108, 108] then map_option (Cons TNull) (lex (drop 3 cs))
      else None)"
  by pat_completeness auto
termination
  by (relation "measure length")
     (auto dest: scan_string_shorter scan_number_shorter simp: less_Suc_eq_le)

text \<open>
  The grammar over the tokens, as a machine with a stack of the arrays and objects that are
  open: \<open>expect\<close> says what may come next, and a frame holds the elements or members read
  so far (\<open>InMember\<close> also the key whose value is being read). A member whose key the
  object already has replaces the value: the last duplicate wins.
\<close>

datatype frame =
    InArray "json list"
  | InObject "(jsstring \<times> json) list"
  | InMember "(jsstring \<times> json) list" jsstring

datatype expect = Value | ValueOrClose | KeyOrClose | Key | ColonNext | CommaOrClose | End json

fun deliver :: "json \<Rightarrow> frame list \<Rightarrow> (expect \<times> frame list) option" where
  "deliver v [] = Some (End v, [])"
| "deliver v (InArray es # fs) = Some (CommaOrClose, InArray (es @ [v]) # fs)"
| "deliver v (InMember obj k # fs) = Some (CommaOrClose, InObject (obj_put obj k v) # fs)"
| "deliver v (InObject obj # fs) = None"

definition begin_value :: "token \<Rightarrow> frame list \<Rightarrow> (expect \<times> frame list) option" where
  "begin_value t fs =
     (case t of
        LBrace \<Rightarrow> Some (KeyOrClose, InObject [] # fs)
      | LBracket \<Rightarrow> Some (ValueOrClose, InArray [] # fs)
      | TString s \<Rightarrow> deliver (JString s) fs
      | TNumber n \<Rightarrow> deliver (JNumber n) fs
      | TTrue \<Rightarrow> deliver (JBool True) fs
      | TFalse \<Rightarrow> deliver (JBool False) fs
      | TNull \<Rightarrow> deliver JNull fs
      | _ \<Rightarrow> None)"

definition step :: "expect \<Rightarrow> frame list \<Rightarrow> token \<Rightarrow> (expect \<times> frame list) option" where
  "step e fs t =
     (case e of
        Value \<Rightarrow> begin_value t fs
      | ValueOrClose \<Rightarrow>
          (case (t, fs) of
             (RBracket, InArray es # fs') \<Rightarrow> deliver (JArray es) fs'
           | _ \<Rightarrow> begin_value t fs)
      | KeyOrClose \<Rightarrow>
          (case (t, fs) of
             (RBrace, InObject obj # fs') \<Rightarrow> deliver (JObject obj) fs'
           | (TString k, InObject obj # fs') \<Rightarrow> Some (ColonNext, InMember obj k # fs')
           | _ \<Rightarrow> None)
      | Key \<Rightarrow>
          (case (t, fs) of
             (TString k, InObject obj # fs') \<Rightarrow> Some (ColonNext, InMember obj k # fs')
           | _ \<Rightarrow> None)
      | ColonNext \<Rightarrow> (case t of Colon \<Rightarrow> Some (Value, fs) | _ \<Rightarrow> None)
      | CommaOrClose \<Rightarrow>
          (case (t, fs) of
             (Comma, InArray es # fs') \<Rightarrow> Some (Value, fs)
           | (RBracket, InArray es # fs') \<Rightarrow> deliver (JArray es) fs'
           | (Comma, InObject obj # fs') \<Rightarrow> Some (Key, fs)
           | (RBrace, InObject obj # fs') \<Rightarrow> deliver (JObject obj) fs'
           | _ \<Rightarrow> None)
      | End v \<Rightarrow> None)"

fun run :: "expect \<Rightarrow> frame list \<Rightarrow> token list \<Rightarrow> json option" where
  "run e fs [] = (case e of End v \<Rightarrow> Some v | _ \<Rightarrow> None)"
| "run e fs (t # ts) =
     (case step e fs t of
        None \<Rightarrow> None
      | Some (e', fs') \<Rightarrow> run e' fs' ts)"

text \<open>\<^verbatim>\<open>JSON.parse(text)\<close>: the value of the text, or a \<^verbatim>\<open>SyntaxError\<close>.\<close>

definition JSON_parse :: "jsstring \<Rightarrow> exn + json" where
  "JSON_parse text =
     (case lex text of
        None \<Rightarrow> Inl SyntaxError
      | Some ts \<Rightarrow> (case run Value [] ts of None \<Rightarrow> Inl SyntaxError | Some v \<Rightarrow> Inr v))"

text \<open>
  \<^verbatim>\<open>JSON.stringify(notes, null, 2)\<close> for an object whose values are strings. A string is
  quoted: the quote, the backslash and the control characters are escaped, and so is a
  surrogate that is not half of a pair; every other code unit stands for itself. An
  object with no property is \<^verbatim>\<open>{}\<close>; otherwise each member is on a line of its own,
  indented by two spaces, with a colon and a space after the key, and the members are
  separated by a comma.
\<close>

definition is_high_surrogate :: "nat \<Rightarrow> bool" where
  "is_high_surrogate c \<longleftrightarrow> 55296 \<le> c \<and> c \<le> 56319"

definition is_low_surrogate :: "nat \<Rightarrow> bool" where
  "is_low_surrogate c \<longleftrightarrow> 56320 \<le> c \<and> c \<le> 57343"

definition hex_digit :: "nat \<Rightarrow> nat" where
  "hex_digit d = (if d < 10 then 48 + d else 87 + d)"

definition unicode_escape :: "nat \<Rightarrow> jsstring" where
  "unicode_escape c =
     [92, 117, hex_digit (c div 4096 mod 16), hex_digit (c div 256 mod 16),
      hex_digit (c div 16 mod 16), hex_digit (c mod 16)]"

definition quote_unit :: "nat \<Rightarrow> jsstring" where
  "quote_unit c =
     (if c = 8 then [92, 98]
      else if c = 9 then [92, 116]
      else if c = 10 then [92, 110]
      else if c = 12 then [92, 102]
      else if c = 13 then [92, 114]
      else if c = 34 then [92, 34]
      else if c = 92 then [92, 92]
      else if c < 32 \<or> is_high_surrogate c \<or> is_low_surrogate c then unicode_escape c
      else [c])"

fun quote_units :: "jsstring \<Rightarrow> jsstring" where
  "quote_units [] = []"
| "quote_units [c] = quote_unit c"
| "quote_units (a # b # cs) =
     (if is_high_surrogate a \<and> is_low_surrogate b then a # b # quote_units cs
      else quote_unit a @ quote_units (b # cs))"

definition QuoteJSONString :: "jsstring \<Rightarrow> jsstring" where
  "QuoteJSONString s = [34] @ quote_units s @ [34]"

fun members :: "(jsstring \<times> jsstring) list \<Rightarrow> jsstring" where
  "members [] = []"
| "members [(k, v)] = str ''  '' @ QuoteJSONString k @ str '': '' @ QuoteJSONString v"
| "members ((k, v) # m # ms) =
     str ''  '' @ QuoteJSONString k @ str '': '' @ QuoteJSONString v @ [44, 10] @ members (m # ms)"

definition JSON_stringify :: "(jsstring \<times> jsstring) list \<Rightarrow> jsstring" where
  "JSON_stringify obj = (if obj = [] then str ''{}'' else [123, 10] @ members obj @ [10, 125])"

subsection \<open>The host: files, editors, messages\<close>

text \<open>
  \<^verbatim>\<open>path.join(dir, name)\<close> is kept as its two arguments, and \<^verbatim>\<open>path.dirname\<close> gives the
  first back. The file system is the text of each file and the set of directories; a disk
  may refuse every read or every write. A refused or impossible operation throws.
\<close>

datatype path = Path (dirname: jsstring) (basename: jsstring)

record files =
  contents :: "path \<rightharpoonup> jsstring"
  directories :: "jsstring set"
  read_fails :: bool
  write_fails :: bool

text \<open>
  A file written with the encoding \<^verbatim>\<open>'utf8'\<close> and read back with it: a surrogate that
  is not half of a pair has no UTF-8 encoding and comes back as U+FFFD.
\<close>

definition utf8_unit :: "nat \<Rightarrow> nat" where
  "utf8_unit c = (if is_high_surrogate c \<or> is_low_surrogate c then 65533 else c)"

fun utf8_text :: "jsstring \<Rightarrow> jsstring" where
  "utf8_text [] = []"
| "utf8_text [c] = [utf8_unit c]"
| "utf8_text (a # b # cs) =
     (if is_high_surrogate a \<and> is_low_surrogate b then a # b # utf8_text cs
      else utf8_unit a # utf8_text (b # cs))"

definition existsSync :: "files \<Rightarrow> path \<Rightarrow> bool" where
  "existsSync fs p \<longleftrightarrow> contents fs p \<noteq> None"

definition existsSync_dir :: "files \<Rightarrow> jsstring \<Rightarrow> bool" where
  "existsSync_dir fs d \<longleftrightarrow> d \<in> directories fs"

definition readFileSync :: "files \<Rightarrow> path \<Rightarrow> exn + jsstring" where
  "readFileSync fs p =
     (if read_fails fs then Inl FsError
      else (case contents fs p of None \<Rightarrow> Inl FsError | Some data \<Rightarrow> Inr data))"

definition mkdirSync :: "files \<Rightarrow> jsstring \<Rightarrow> exn + files" where
  "mkdirSync fs d =
     (if write_fails fs then Inl FsError
      else Inr (fs\<lparr>directories := insert d (directories fs)\<rparr>))"

definition writeFileSync :: "files \<Rightarrow> path \<Rightarrow> jsstring \<Rightarrow> exn + files" where
  "writeFileSync fs p data =
     (if write_fails fs \<or> dirname p \<notin> directories fs then Inl FsError
      else Inr (fs\<lparr>contents := (contents fs)(p \<mapsto> utf8_text data)\<rparr>))"

text \<open>
  What the extension reads of VS Code: the paths of the workspace folders (none when
  \<^verbatim>\<open>workspaceFolders\<close> is undefined or empty), the global storage path of the extension
  context, the active editor and the visible editors.
\<close>

record host =
  workspaceFolders :: "jsstring list"
  globalStoragePath :: jsstring
  activeTextEditor :: "editor option"
  visibleTextEditors :: "editor list"

definition getNotesFilePath :: "host \<Rightarrow> path" where
  "getNotesFilePath context =
     (case workspaceFolders context of
        folder # _ \<Rightarrow> Path folder (str ''.code-notes.json'')
      | [] \<Rightarrow> Path (globalStoragePath context) (str ''code-notes.json''))"

text \<open>What the extension shows: console lines, messages, input boxes, decorations.\<close>

datatype event =
    ConsoleLog string
  | ConsoleError string exn
  | InformationMessage string
  | ErrorMessage string
  | InputBox string jsstring
  | SetDecorations editor "decoration list"

subsection \<open>The state of the extension\<close>

text \<open>
  The variable \<^verbatim>\<open>notes\<close> is declared with the type \<^verbatim>\<open>{ [key: string]: string }\<close>, but
  \<^verbatim>\<open>loadNotes\<close> assigns to it whatever \<^verbatim>\<open>JSON.parse\<close> returns. \<open>Notes obj\<close> is a value
  of the declared type; \<open>Foreign v\<close> is any other parsed value. What the commands do with
  a foreign value is outside this model: there they give \<open>None\<close>.
\<close>

datatype notes_value = Notes "(jsstring \<times> jsstring) list" | Foreign json

fun string_members :: "(jsstring \<times> json) list \<Rightarrow> (jsstring \<times> jsstring) list option" where
  "string_members [] = Some []"
| "string_members ((k, JString s) # ms) = map_option (Cons (k, s)) (string_members ms)"
| "string_members ((k, _) # ms) = None"

definition notes_of_json :: "json \<Rightarrow> notes_value" where
  "notes_of_json v =
     (case v of
        JObject ms \<Rightarrow> (case string_members ms of Some obj \<Rightarrow> Notes obj | None \<Rightarrow> Foreign v)
      | _ \<Rightarrow> Foreign v)"

record state =
  "notes" :: notes_value
  disk :: files
  events :: "event list"

definition emit :: "event \<Rightarrow> state \<Rightarrow> state" where
  "emit e s = s\<lparr>events := events s @ [e]\<rparr>"

text \<open>The module starts with \<^verbatim>\<open>let notes = {}\<close>.\<close>

definition initial_state :: "files \<Rightarrow> state" where
  "initial_state fs = \<lparr>notes = Notes [], disk = fs, events = []\<rparr>"

subsection \<open>Loading and saving\<close>

text \<open>The \<^verbatim>\<open>try\<close> block of \<^verbatim>\<open>loadNotes\<close>; \<open>Inl\<close> is an exception thrown in it.\<close>

definition loadNotes_try :: "path \<Rightarrow> state \<Rightarrow> exn + state" where
  "loadNotes_try notesFilePath s =
     (if existsSync (disk s) notesFilePath then
        (case readFileSync (disk s) notesFilePath of
           Inl e \<Rightarrow> Inl e
         | Inr data \<Rightarrow>
             (case JSON_parse data of
                Inl e \<Rightarrow> Inl e
              | Inr v \<Rightarrow> Inr (emit (ConsoleLog ''Notes loaded:'') (s\<lparr>notes := notes_of_json v\<rparr>))))
      else Inr (emit (ConsoleLog ''No notes file found. Starting with an empty notes object.'') s))"

definition loadNotes :: "host \<Rightarrow> state \<Rightarrow> state" where
  "loadNotes context s =
     (let notesFilePath = getNotesFilePath context;
          s1 = emit (ConsoleLog ''Loading notes from:'') s
      in case loadNotes_try notesFilePath s1 of
           Inr s2 \<Rightarrow> s2
         | Inl error \<Rightarrow> emit (ConsoleError ''Failed to load notes:'' error) s1)"

text \<open>
  The \<^verbatim>\<open>try\<close> block of \<^verbatim>\<open>saveNotes\<close>: the disk it leaves, and the exception if one was
  thrown.
\<close>

definition saveNotes_try :: "path \<Rightarrow> (jsstring \<times> jsstring) list \<Rightarrow> files \<Rightarrow> files \<times> exn option" where
  "saveNotes_try notesFilePath obj fs =
     (let dir = dirname notesFilePath
      in case (if \<not> existsSync_dir fs dir then mkdirSync fs dir else Inr fs) of
           Inl e \<Rightarrow> (fs, Some e)
         | Inr fs1 \<Rightarrow>
             (case writeFileSync fs1 notesFilePath (JSON_stringify obj) of
                Inl e \<Rightarrow> (fs1, Some e)
              | Inr fs2 \<Rightarrow> (fs2, None)))"

definition saveNotes :: "host \<Rightarrow> state \<Rightarrow> state option" where
  "saveNotes context s =
     (let notesFilePath = getNotesFilePath context;
          s1 = emit (ConsoleLog ''Saving notes to:'') s
      in case notes s1 of
           Foreign v \<Rightarrow> None
         | Notes obj \<Rightarrow>
             (case saveNotes_try notesFilePath obj (disk s1) of
                (fs, None) \<Rightarrow> Some (emit (ConsoleLog ''Notes saved:'') (s1\<lparr>disk := fs\<rparr>))
              | (fs, Some error) \<Rightarrow>
                  Some (emit (ConsoleError ''Failed to save notes:'' error) (s1\<lparr>disk := fs\<rparr>))))"

subsection \<open>Decorating an editor\<close>

text \<open>
  \<^verbatim>\<open>updateDecorations(editor)\<close>: the loop, a console line, and the decorations of the
  editor replaced by the new list. An exception of the loop would leave the function; the
  model ends there (\<open>None\<close>).
\<close>

definition updateDecorations :: "(jsstring \<Rightarrow> jsstring) \<Rightarrow> editor \<Rightarrow> state \<Rightarrow> state option" where
  "updateDecorations unicode_lower editor s =
     (case notes s of
        Foreign v \<Rightarrow> None
      | Notes obj \<Rightarrow>
          (case decorations_of unicode_lower editor obj of
             Inl e \<Rightarrow> None
           | Inr decorations \<Rightarrow>
               Some (emit (SetDecorations editor decorations)
                      (emit (ConsoleLog ''Applying decorations:'') s))))"

subsection \<open>The commands and the hover\<close>

text \<open>
  A command shows an input box and continues when the user answers; the answer is an
  argument of the model: \<open>None\<close> when the box was dismissed (\<^verbatim>\<open>undefined\<close>), \<open>Some text\<close>
  when it was accepted. Nothing else happens between the box and the answer.

  \<^verbatim>\<open>code-canvas.addNote\<close>: without an active editor nothing happens at all. An answer that
  is \<^verbatim>\<open>undefined\<close> or the empty string is falsy.
\<close>

definition addNote ::
  "(jsstring \<Rightarrow> jsstring) \<Rightarrow> host \<Rightarrow> jsstring option \<Rightarrow> state \<Rightarrow> state option" where
  "addNote unicode_lower context answer s =
     (case activeTextEditor context of
        None \<Rightarrow> Some s
      | Some editor \<Rightarrow>
          (let line = cursorLine editor;
               filePath = fsPath editor;
               key = noteKey filePath line;
               s1 = emit (InputBox ''Enter your note'' []) s
           in case answer of
                None \<Rightarrow> Some s1
              | Some note \<Rightarrow>
                  if note = [] then Some s1
                  else
                    (case notes s1 of
                       Foreign v \<Rightarrow> None
                     | Notes obj \<Rightarrow>
                         do {
                           s2 \<leftarrow> saveNotes context (s1\<lparr>notes := Notes (obj_put obj key note)\<rparr>);
                           s3 \<leftarrow> updateDecorations unicode_lower editor s2;
                           Some (emit (InformationMessage ''Note added!'') s3)
                         })))"

text \<open>
  \<^verbatim>\<open>code-canvas.editNote\<close>. The argument is \<^verbatim>\<open>undefined\<close> (\<open>None\<close>) or an object whose
  \<^verbatim>\<open>filePath\<close> and \<^verbatim>\<open>line\<close> may each be \<^verbatim>\<open>undefined\<close>.
\<close>

record edit_args =
  arg_filePath :: "jsstring option"
  arg_line :: "nat option"

definition editNote ::
  "(jsstring \<Rightarrow> jsstring) \<Rightarrow> host \<Rightarrow> edit_args option \<Rightarrow> jsstring option \<Rightarrow> state \<Rightarrow> state option" where
  "editNote unicode_lower context args answer s =
     (case args of
        None \<Rightarrow> Some (emit (ErrorMessage ''Invalid arguments passed to Edit Note command.'') s)
      | Some a \<Rightarrow>
          (case (arg_filePath a, arg_line a) of
             (Some filePath, Some line) \<Rightarrow>
               (let key = noteKey filePath line
                in case notes s of
                     Foreign v \<Rightarrow> None
                   | Notes obj0 \<Rightarrow>
                       (let prefilled = (case map_of obj0 key of
                                           None \<Rightarrow> []
                                         | Some old \<Rightarrow> if old = [] then [] else old);
                            s1 = emit (InputBox ''Edit your note'' prefilled) s
                        in case answer of
                             None \<Rightarrow> Some s1
                           | Some newNote \<Rightarrow>
                               (case notes s1 of
                                  Foreign v \<Rightarrow> None
                                | Notes obj \<Rightarrow>
                                    do {
                                      s2 \<leftarrow> saveNotes context (s1\<lparr>notes := Notes (obj_put obj key newNote)\<rparr>);
                                      s3 \<leftarrow> (case find (\<lambda>e. fsPath e = filePath) (visibleTextEditors context) of
                                              None \<Rightarrow> Some s2
                                            | Some editor \<Rightarrow> updateDecorations unicode_lower editor s2);
                                      Some (emit (InformationMessage ''Note updated!'') s3)
                                    })))
           | _ \<Rightarrow> Some (emit (ErrorMessage ''Invalid arguments passed to Edit Note command.'') s)))"

text \<open>
  \<^verbatim>\<open>provideHover(document, position)\<close> on a notes object of the declared type: the hover
  text, or \<^verbatim>\<open>null\<close> (\<open>None\<close>). The test \<^verbatim>\<open>if (notes[noteKey])\<close> is false for
  \<^verbatim>\<open>undefined\<close> and for the empty string.
\<close>

definition provideHover :: "(jsstring \<times> jsstring) list \<Rightarrow> jsstring \<Rightarrow> nat \<Rightarrow> hover_text option" where
  "provideHover obj document_fsPath position_line =
     (let filePath = document_fsPath;
          key = noteKey filePath position_line
      in case map_of obj key of
           None \<Rightarrow> None
         | Some note \<Rightarrow>
             if note = [] then None
             else Some \<lparr>note_text = note, link_filePath = filePath, link_line = position_line\<rparr>)"

text \<open>
  \<^verbatim>\<open>activate\<close>: the notes are loaded once, into the empty object, and every visible editor
  is decorated.
\<close>

fun forEach_updateDecorations ::
  "(jsstring \<Rightarrow> jsstring) \<Rightarrow> editor list \<Rightarrow> state \<Rightarrow> state option" where
  "forEach_updateDecorations unicode_lower [] s = Some s"
| "forEach_updateDecorations unicode_lower (editor # editors) s =
     (case updateDecorations unicode_lower editor s of
        None \<Rightarrow> None
      | Some s' \<Rightarrow> forEach_updateDecorations unicode_lower editors s')"

definition activate :: "(jsstring \<Rightarrow> jsstring) \<Rightarrow> host \<Rightarrow> files \<Rightarrow> state option" where
  "activate unicode_lower context fs =
     forEach_updateDecorations unicode_lower (visibleTextEditors context)
       (loadNotes context (emit (ConsoleLog ''Code Notes Extension is active!'') (initial_state fs)))"

subsection \<open>Names used in the statements\<close>

text \<open>
  The console line that ends \<^verbatim>\<open>saveNotes\<close>, the state after \<^verbatim>\<open>saveNotes\<close> on the notes
  \<open>obj\<close>, and the state after \<^verbatim>\<open>updateDecorations\<close>.
\<close>

definition save_event :: "exn option \<Rightarrow> event" where
  "save_event thrown =
     (case thrown of
        None \<Rightarrow> ConsoleLog ''Notes saved:''
      | Some error \<Rightarrow> ConsoleError ''Failed to save notes:'' error)"

definition saved :: "host \<Rightarrow> (jsstring \<times> jsstring) list \<Rightarrow> state \<Rightarrow> state" where
  "saved context obj s =
     s\<lparr>notes := Notes obj,
       disk := fst (saveNotes_try (getNotesFilePath context) obj (disk s)),
       events := events s @ [ConsoleLog ''Saving notes to:'',
                             save_event (snd (saveNotes_try (getNotesFilePath context) obj (disk s)))]\<rparr>"

definition decorated ::
  "(jsstring \<Rightarrow> jsstring) \<Rightarrow> editor \<Rightarrow> (jsstring \<times> jsstring) list \<Rightarrow> state \<Rightarrow> state" where
  "decorated unicode_lower editor obj s =
     s\<lparr>events := events s @ [ConsoleLog ''Applying decorations:'',
                             SetDecorations editor (concat (map (entry_decorations unicode_lower editor) obj))]\<rparr>"

text \<open>The tokens of the members \<^verbatim>\<open>JSON.stringify\<close> writes for an object.\<close>

fun member_tokens :: "(jsstring \<times> jsstring) list \<Rightarrow> token list" where
  "member_tokens [] = []"
| "member_tokens [(k, v)] = [TString k, Colon, TString v]"
| "member_tokens ((k, v) # m # ms) = TString k # Colon # TString v # Comma # member_tokens (m # ms)"

text \<open>
  The invariant carried through the parser and the state: every object under construction,
  the parsed value, and the notes of the declared type have the property order and no
  key twice.
\<close>

fun frame_ok :: "frame \<Rightarrow> bool" where
  "frame_ok (InArray es) = True"
| "frame_ok (InObject obj) = obj_ok obj"
| "frame_ok (InMember obj k) = obj_ok obj"

definition value_ok :: "json \<Rightarrow> bool" where
  "value_ok v = (case v of JObject ms \<Rightarrow> obj_ok ms | _ \<Rightarrow> True)"

definition expect_ok :: "expect \<Rightarrow> bool" where
  "expect_ok e = (case e of End v \<Rightarrow> value_ok v | _ \<Rightarrow> True)"

definition notes_ok :: "state \<Rightarrow> bool" where
  "notes_ok s = (case notes s of Notes obj \<Rightarrow> obj_ok obj | Foreign v \<Rightarrow> True)"

text \<open>
  For the examples, an excerpt of the case tables of the host as the parameter
  \<open>unicode_lower\<close>: the capital letters of Basic Latin, of Latin-1 and of the Cyrillic
  block from U+0400 to U+042F, each replaced by its small letter.
\<close>

definition example_unicode_lower :: "jsstring \<Rightarrow> jsstring" where
  "example_unicode_lower s =
     map (\<lambda>c. if (65 \<le> c \<and> c \<le> 90) \<or> (192 \<le> c \<and> c \<le> 222 \<and> c \<noteq> 215) \<or> (1040 \<le> c \<and> c \<le> 1071)
               then c + 32
               else if 1024 \<le> c \<and> c \<le> 1039 then c + 80 else c) s"

text \<open>Inputs for the examples: a disk with no file, editors, hosts, a Windows path.\<close>

definition empty_disk :: files where
  "empty_disk = \<lparr>contents = Map.empty, directories = {}, read_fails = False, write_fails = False\<rparr>"

definition main_editor :: editor where
  "main_editor = \<lparr>fsPath = str ''/repo/main.ts'', lineCount = 10, cursorLine = 5\<rparr>"

definition repo_host :: host where
  "repo_host = \<lparr>workspaceFolders = [str ''/repo''], globalStoragePath = str ''/global'',
                 activeTextEditor = Some main_editor, visibleTextEditors = [main_editor]\<rparr>"

definition windows_path :: jsstring where
  "windows_path = str ''C:'' @ [92] @ str ''Proj'' @ [92] @ str ''a.ts''"

definition proj_editor :: editor where
  "proj_editor = \<lparr>fsPath = str ''c:/proj/a.ts'', lineCount = 10, cursorLine = 0\<rparr>"

definition proj_host :: host where
  "proj_host = \<lparr>workspaceFolders = [], globalStoragePath = str ''/global'',
                 activeTextEditor = Some proj_editor, visibleTextEditors = [proj_editor]\<rparr>"

definition broken_disk :: files where
  "broken_disk = empty_disk\<lparr>contents := [Path (str ''/repo'') (str ''.code-notes.json'') \<mapsto> str ''{oops'']\<rparr>"

section \<open>Properties\<close>

subsection \<open>The loop and the key\<close>

lemma decorations_of_concat:
  "decorations_of unicode_lower editor entries = Inr (concat (map (entry_decorations unicode_lower editor) entries))"
proof (induction entries)
  case Nil
  show ?case by simp
next
  case (Cons entry entries)
  obtain k v where e: "entry = (k, v)" by (cases entry)
  obtain f more where sp: "split_sep k = (f, more)" by (cases "split_sep k")
  show ?case
    using Cons.IH
    by (simp add: e sp entry_decorations_def normalizePath_def key_filePath_def key_lineStr_def
        new_Range_def split: option.split)
qed

lemma digits_value_snoc: "digits_value (z @ [d]) = 10 * digits_value z + (d - 48)"
  by (simp add: digits_value_def)

lemma dec_digits: "list_all is_digit (dec n) \<and> dec n \<noteq> []"
proof (induction n rule: dec.induct)
  case (1 n)
  show ?case
  proof (cases "n < 10")
    case True
    then show ?thesis by (subst dec.simps, subst dec.simps) (simp add: is_digit_def)
  next
    case False
    have "n mod 10 < 10" by simp
    then have "is_digit (48 + n mod 10)" unfolding is_digit_def by linarith
    with False 1 show ?thesis by (subst dec.simps, subst dec.simps) simp
  qed
qed

lemma digits_value_dec: "digits_value (dec n) = n"
proof (induction n rule: dec.induct)
  case (1 n)
  show ?case
  proof (cases "n < 10")
    case True
    then show ?thesis by (subst dec.simps) (simp add: digits_value_def)
  next
    case False
    with 1 show ?thesis by (subst dec.simps) (simp add: digits_value_snoc)
  qed
qed

lemma digit_not_space: "is_digit c \<Longrightarrow> \<not> is_white_space c \<and> c \<noteq> 43 \<and> c \<noteq> 45 \<and> c \<noteq> 58"
  by (auto simp: is_digit_def is_white_space_def)

lemma parseInt_digits:
  assumes "list_all is_digit z" "z \<noteq> []" "rest = [] \<or> \<not> is_digit (hd rest)"
  shows "parseInt_string (z @ rest) = Some (int (digits_value z))"
proof -
  obtain c z' where z: "z = c # z'" using assms(2) by (cases z) auto
  with assms(1) have c: "is_digit c" by simp
  have tw: "takeWhile is_digit (z @ rest) = z"
    using assms(1,3) by (cases rest) (auto simp: list_all_iff takeWhile_append2 intro: takeWhile_eq_all_conv[THEN iffD2])
  have dw: "dropWhile is_white_space (z @ rest) = z @ rest"
    using c digit_not_space[OF c] by (simp add: z)
  show ?thesis
    unfolding parseInt_string_def dw Let_def
    using digit_not_space[OF c] tw assms(2) by (simp add: z)
qed

lemma parseInt_dec: "parseInt (Some (dec n)) = Some (int n)"
  using parseInt_digits[of "dec n" "[]"] dec_digits[of n]
  by (simp add: parseInt_def digits_value_dec)

lemma split_sep_no_colon: "58 \<notin> set s \<Longrightarrow> split_sep s = (s, [])"
  by (induction s rule: split_sep.induct) auto

lemma split_sep_key:
  "split_sep f = (f, []) \<Longrightarrow> f = [] \<or> last f \<noteq> 58 \<Longrightarrow> 58 \<notin> set r \<Longrightarrow>
   split_sep (f @ 58 # 58 # r) = (f, [r])"
proof (induction f rule: split_sep.induct)
  case 1
  then show ?case by (simp add: split_sep_no_colon)
next
  case (2 c)
  then show ?case by (simp add: split_sep_no_colon)
next
  case (3 a b cs)
  then show ?case
    by (auto split: prod.splits if_splits)
qed

lemma noteKey_decode:
  "split_sep f = (f, []) \<Longrightarrow> f = [] \<or> last f \<noteq> 58 \<Longrightarrow>
   key_filePath (noteKey f n) = f \<and> key_lineStr (noteKey f n) = Some (dec n)"
proof -
  assume a: "split_sep f = (f, [])" "f = [] \<or> last f \<noteq> 58"
  have "58 \<notin> set (dec n)"
    using dec_digits[of n] digit_not_space by (auto simp: list_all_iff)
  from split_sep_key[OF a this] show ?thesis
    by (simp add: noteKey_def str_def key_filePath_def key_lineStr_def)
qed

lemma decorations_of_insert:
  assumes "decorations_of unicode_lower editor before = Inr ds1" and "decorations_of unicode_lower editor after = Inr ds2"
  shows "decorations_of unicode_lower editor (before @ entry # after) = Inr (ds1 @ entry_decorations unicode_lower editor entry @ ds2)"
  using assms by (simp add: decorations_of_concat)

subsection \<open>Which entries decorate an editor\<close>

lemma normalizePath_ascii:
  "list_all (\<lambda>c. c < 128) p \<Longrightarrow>
   normalizePath unicode_lower p =
     map (\<lambda>c. if c = 92 then 47 else if 65 \<le> c \<and> c \<le> 90 then c + 32 else c) p"
proof -
  assume a: "list_all (\<lambda>c. c < 128) p"
  then have "list_all (\<lambda>c. c < 128) (replace_backslashes p)"
    by (induction p) (simp_all add: replace_backslashes_def)
  then show ?thesis
    by (simp add: normalizePath_def toLowerCase_def replace_backslashes_def ascii_lower_def)
qed

lemma normalizePath_other:
  "\<not> list_all (\<lambda>c. c < 128) p \<Longrightarrow>
   normalizePath unicode_lower p = unicode_lower (map (\<lambda>c. if c = 92 then 47 else c) p)"
proof -
  assume a: "\<not> list_all (\<lambda>c. c < 128) p"
  then have "\<not> list_all (\<lambda>c. c < 128) (replace_backslashes p)"
    by (induction p) (auto simp: replace_backslashes_def)
  then show ?thesis
    by (simp add: normalizePath_def toLowerCase_def replace_backslashes_def)
qed

text \<open>
  Claim C3. The renderer decides whether a stored entry belongs to an editor by comparing
  the first segment of the key and the path of the editor after replacing backslashes
  by slashes and lowercasing both. An entry whose normalized path differs adds no
  decoration; an entry whose normalized path is equal and whose line is a line of the
  document adds its decoration, in the place of the entry. The normal form of an ASCII
  path is the path with every backslash replaced by a slash and every letter \<open>A\<close> to \<open>Z\<close>
  by its small letter; the normal form of any other path is the lowercasing of the host
  applied to the path with its backslashes replaced. In particular an entry keyed with
  \<^verbatim>\<open>C:\Proj\a.ts\<close> decorates the editor of \<^verbatim>\<open>c:/proj/a.ts\<close>. All of this holds for
  every case table \<open>unicode_lower\<close> of the host.
\<close>

theorem render_matches_normalized_paths:
  assumes "decorations_of unicode_lower editor before = Inr ds1"
    and "decorations_of unicode_lower editor after = Inr ds2"
  shows "(normalizePath unicode_lower (key_filePath key) \<noteq> normalizePath unicode_lower (fsPath editor) \<longrightarrow>
            decorations_of unicode_lower editor (before @ (key, text) # after) = Inr (ds1 @ ds2))
       \<and> (normalizePath unicode_lower (key_filePath key) = normalizePath unicode_lower (fsPath editor)
            \<and> parseInt (key_lineStr key) = Some (int n) \<and> n < lineCount editor \<longrightarrow>
            decorations_of unicode_lower editor (before @ (key, text) # after) =
              Inr (ds1 @ \<lparr>range_line = n,
                          hoverMessage = \<lparr>note_text = text, link_filePath = key_filePath key,
                                          link_line = n\<rparr>\<rparr> # ds2))
       \<and> (list_all (\<lambda>c. c < 128) p \<longrightarrow>
            normalizePath unicode_lower p =
              map (\<lambda>c. if c = 92 then 47 else if 65 \<le> c \<and> c \<le> 90 then c + 32 else c) p)
       \<and> (\<not> list_all (\<lambda>c. c < 128) p \<longrightarrow>
            normalizePath unicode_lower p = unicode_lower (map (\<lambda>c. if c = 92 then 47 else c) p))
       \<and> (n < lines \<and> n < 9007199254740992 \<longrightarrow>
            decorations_of unicode_lower
              \<lparr>fsPath = str ''c:/proj/a.ts'', lineCount = lines, cursorLine = cursor\<rparr>
              [(noteKey (str ''C:'' @ [92] @ str ''Proj'' @ [92] @ str ''a.ts'') n, text)] =
              Inr [\<lparr>range_line = n,
                    hoverMessage = \<lparr>note_text = text,
                                    link_filePath = str ''C:'' @ [92] @ str ''Proj'' @ [92] @ str ''a.ts'',
                                    link_line = n\<rparr>\<rparr>])"
proof -
  define w where "w = str ''C:'' @ [92] @ str ''Proj'' @ [92] @ str ''a.ts''"
  have dk: "key_filePath (noteKey w n) = w \<and> key_lineStr (noteKey w n) = Some (dec n)"
    by (rule noteKey_decode) (simp_all add: w_def str_def)
  have np: "normalizePath unicode_lower w = normalizePath unicode_lower (str ''c:/proj/a.ts'')"
    by (simp add: w_def normalizePath_def toLowerCase_def replace_backslashes_def ascii_lower_def str_def)
  have ex: "n < lines \<and> n < 9007199254740992 \<longrightarrow>
      decorations_of unicode_lower \<lparr>fsPath = str ''c:/proj/a.ts'', lineCount = lines, cursorLine = cursor\<rparr>
        [(noteKey w n, text)] =
      Inr [\<lparr>range_line = n, hoverMessage = \<lparr>note_text = text, link_filePath = w, link_line = n\<rparr>\<rparr>]"
    unfolding decorations_of_concat entry_decorations_def by (simp add: dk np parseInt_dec)
  have ins: "decorations_of unicode_lower editor (before @ (key, text) # after) =
      Inr (ds1 @ entry_decorations unicode_lower editor (key, text) @ ds2)"
    by (rule decorations_of_insert[OF assms])
  have 1: "normalizePath unicode_lower (key_filePath key) \<noteq> normalizePath unicode_lower (fsPath editor) \<longrightarrow>
            decorations_of unicode_lower editor (before @ (key, text) # after) = Inr (ds1 @ ds2)"
    unfolding ins by (simp add: entry_decorations_def)
  have 2: "normalizePath unicode_lower (key_filePath key) = normalizePath unicode_lower (fsPath editor)
            \<and> parseInt (key_lineStr key) = Some (int n) \<and> n < lineCount editor \<longrightarrow>
            decorations_of unicode_lower editor (before @ (key, text) # after) =
              Inr (ds1 @ \<lparr>range_line = n,
                          hoverMessage = \<lparr>note_text = text, link_filePath = key_filePath key,
                                          link_line = n\<rparr>\<rparr> # ds2)"
    unfolding ins by (simp add: entry_decorations_def)
  from 1 2 normalizePath_ascii[of p unicode_lower] normalizePath_other[of p unicode_lower] ex
  show ?thesis
    unfolding w_def by blast
qed

theorem render_matches_normalized_paths_witness:
  "decorations_of example_unicode_lower \<lparr>fsPath = str ''/repo/main.ts'', lineCount = 10, cursorLine = 0\<rparr>
     [(str ''/repo/other.ts::5'', str ''fix this'')] = Inr []
   \<and> decorations_of example_unicode_lower \<lparr>fsPath = str ''/repo/main.ts'', lineCount = 10, cursorLine = 0\<rparr>
     [(str ''/repo/main.ts::5'', str ''fix this'')] =
       Inr [\<lparr>range_line = 5,
             hoverMessage = \<lparr>note_text = str ''fix this'', link_filePath = str ''/repo/main.ts'',
                             link_line = 5\<rparr>\<rparr>]
   \<and> normalizePath example_unicode_lower ([92] @ str ''ABCDEFGHIJKLMNOPQRSTUVWXYZ@[`{09az'') =
       str ''/abcdefghijklmnopqrstuvwxyz@[`{09az''
   \<and> decorations_of example_unicode_lower
       \<lparr>fsPath = [47, 1087, 1088, 1086, 1077, 1082, 1090, 47, 1092] @ str ''.ts'',
        lineCount = 10, cursorLine = 0\<rparr>
       [([47, 1055, 1056, 1054, 1045, 1050, 1058, 92, 1060] @ str ''.ts::1'', str ''t'')] =
       Inr [\<lparr>range_line = 1,
             hoverMessage = \<lparr>note_text = str ''t'',
                             link_filePath = [47, 1055, 1056, 1054, 1045, 1050, 1058, 92, 1060] @ str ''.ts'',
                             link_line = 1\<rparr>\<rparr>]
   \<and> decorations_of example_unicode_lower \<lparr>fsPath = str ''c:/proj/a.ts'', lineCount = 4, cursorLine = 0\<rparr>
     [(noteKey (str ''C:'' @ [92] @ str ''Proj'' @ [92] @ str ''a.ts'') 3, str ''t'')] =
       Inr [\<lparr>range_line = 3,
             hoverMessage = \<lparr>note_text = str ''t'',
                             link_filePath = str ''C:'' @ [92] @ str ''Proj'' @ [92] @ str ''a.ts'',
                             link_line = 3\<rparr>\<rparr>]"
proof -
  let ?u = example_unicode_lower
  let ?ed = "\<lparr>fsPath = str ''/repo/main.ts'', lineCount = 10, cursorLine = 0\<rparr>"
  let ?ced = "\<lparr>fsPath = [47, 1087, 1088, 1086, 1077, 1082, 1090, 47, 1092] @ str ''.ts'',
        lineCount = 10, cursorLine = 0\<rparr>"
  let ?ckey = "[47, 1055, 1056, 1054, 1045, 1050, 1058, 92, 1060] @ str ''.ts::1''"
  let ?all = "[92] @ str ''ABCDEFGHIJKLMNOPQRSTUVWXYZ@[`{09az''"
  have e: "decorations_of ?u ?ed [] = Inr []" "decorations_of ?u ?ced [] = Inr []"
    by simp_all
  have k1: "key_filePath (str ''/repo/other.ts::5'') = str ''/repo/other.ts''"
    by (simp add: key_filePath_def str_def)
  have k2: "key_filePath (str ''/repo/main.ts::5'') = str ''/repo/main.ts''"
    "key_lineStr (str ''/repo/main.ts::5'') = Some (str ''5'')"
    by (simp_all add: key_filePath_def key_lineStr_def str_def)
  have k3: "key_filePath ?ckey = [47, 1055, 1056, 1054, 1045, 1050, 1058, 92, 1060] @ str ''.ts''"
    "key_lineStr ?ckey = Some (str ''1'')"
    by (simp_all add: key_filePath_def key_lineStr_def str_def)
  have p: "parseInt (Some (str ''5'')) = Some (int 5)" "parseInt (Some (str ''1'')) = Some (int 1)"
    by (simp_all add: parseInt_def parseInt_string_def str_def is_white_space_def is_digit_def digits_value_def)
  have asc: "list_all (\<lambda>c. c < 128) (str ''/repo/other.ts'')" "list_all (\<lambda>c. c < 128) (str ''/repo/main.ts'')"
    "list_all (\<lambda>c. c < 128) ?all"
    by (simp_all add: str_def)
  have nasc: "\<not> list_all (\<lambda>c. c < 128) (fsPath ?ced)"
    "\<not> list_all (\<lambda>c. c < 128) ([47, 1055, 1056, 1054, 1045, 1050, 1058, 92, 1060] @ str ''.ts'')"
    by (simp_all add: str_def)
  have n1: "normalizePath ?u (str ''/repo/other.ts'') = str ''/repo/other.ts''"
    using render_matches_normalized_paths[OF e(1) e(1), where p = "str ''/repo/other.ts''"] asc(1)
    by (simp add: str_def)
  have n2: "normalizePath ?u (str ''/repo/main.ts'') = str ''/repo/main.ts''"
    using render_matches_normalized_paths[OF e(1) e(1), where p = "str ''/repo/main.ts''"] asc(2)
    by (simp add: str_def)
  have n3: "normalizePath ?u ?all = str ''/abcdefghijklmnopqrstuvwxyz@[`{09az''"
    using render_matches_normalized_paths[OF e(1) e(1), where p = ?all] asc(3)
    by (simp add: str_def)
  have n4: "normalizePath ?u (fsPath ?ced) = fsPath ?ced"
    using render_matches_normalized_paths[OF e(1) e(1), where p = "fsPath ?ced"] nasc(1)
    by (simp add: str_def example_unicode_lower_def)
  have n5: "normalizePath ?u ([47, 1055, 1056, 1054, 1045, 1050, 1058, 92, 1060] @ str ''.ts'') = fsPath ?ced"
    using render_matches_normalized_paths[OF e(1) e(1),
        where p = "[47, 1055, 1056, 1054, 1045, 1050, 1058, 92, 1060] @ str ''.ts''"] nasc(2)
    by (simp add: str_def example_unicode_lower_def)
  have ne: "str ''/repo/other.ts'' \<noteq> str ''/repo/main.ts''"
    by (simp add: str_def)
  have a: "decorations_of ?u ?ed [(str ''/repo/other.ts::5'', str ''fix this'')] = Inr []"
    using render_matches_normalized_paths[OF e(1) e(1),
        where key = "str ''/repo/other.ts::5''" and ?text = "str ''fix this''"] ne
    by (simp add: k1 n1 n2 del: decorations_of.simps)
  have b: "decorations_of ?u ?ed [(str ''/repo/main.ts::5'', str ''fix this'')] =
       Inr [\<lparr>range_line = 5,
             hoverMessage = \<lparr>note_text = str ''fix this'', link_filePath = str ''/repo/main.ts'',
                             link_line = 5\<rparr>\<rparr>]"
    using render_matches_normalized_paths[OF e(1) e(1),
        where key = "str ''/repo/main.ts::5''" and ?text = "str ''fix this''" and n = 5] p(1)
    by (simp add: k2 del: decorations_of.simps)
  have c: "decorations_of ?u ?ced [(?ckey, str ''t'')] =
       Inr [\<lparr>range_line = 1,
             hoverMessage = \<lparr>note_text = str ''t'',
                             link_filePath = [47, 1055, 1056, 1054, 1045, 1050, 1058, 92, 1060] @ str ''.ts'',
                             link_line = 1\<rparr>\<rparr>]"
  proof -
    have m: "normalizePath ?u (key_filePath ?ckey) = normalizePath ?u (fsPath ?ced)"
      "parseInt (key_lineStr ?ckey) = Some (int 1)" "1 < lineCount ?ced"
      by (simp_all only: k3 n4 n5 p) simp
    from render_matches_normalized_paths[OF e(2) e(2),
        where key = ?ckey and ?text = "str ''t''" and n = 1] m
    have "decorations_of ?u ?ced ([] @ (?ckey, str ''t'') # []) =
       Inr ([] @ \<lparr>range_line = 1,
             hoverMessage = \<lparr>note_text = str ''t'', link_filePath = key_filePath ?ckey,
                             link_line = 1\<rparr>\<rparr> # [])"
      by blast
    then show ?thesis
      by (simp only: append_Nil k3(1))
  qed
  have d: "decorations_of ?u \<lparr>fsPath = str ''c:/proj/a.ts'', lineCount = 4, cursorLine = 0\<rparr>
     [(noteKey (str ''C:'' @ [92] @ str ''Proj'' @ [92] @ str ''a.ts'') 3, str ''t'')] =
       Inr [\<lparr>range_line = 3,
             hoverMessage = \<lparr>note_text = str ''t'',
                             link_filePath = str ''C:'' @ [92] @ str ''Proj'' @ [92] @ str ''a.ts'',
                             link_line = 3\<rparr>\<rparr>]"
    using render_matches_normalized_paths[OF e(1) e(1),
        where ?text = "str ''t''" and n = 3 and lines = 4 and cursor = 0]
    by (simp del: decorations_of.simps)
  from a b n3 c d show ?thesis
    by (simp del: decorations_of.simps)
qed

lemma entry_decorations_eq:
  "entry_decorations unicode_lower editor entry =
     (case parseInt (key_lineStr (fst entry)) of
        None \<Rightarrow> []
      | Some l \<Rightarrow>
          if normalizePath unicode_lower (key_filePath (fst entry)) = normalizePath unicode_lower (fsPath editor)
             \<and> 0 \<le> l \<and> l < int (lineCount editor)
          then [\<lparr>range_line = nat l,
                 hoverMessage = \<lparr>note_text = snd entry, link_filePath = key_filePath (fst entry),
                                 link_line = nat l\<rparr>\<rparr>]
          else [])"
  by (simp add: entry_decorations_def split: option.split)

lemma entry_decorations_cases:
  assumes d: "d \<in> set (entry_decorations unicode_lower editor entry)"
  shows "range_line d < lineCount editor
     \<and> normalizePath unicode_lower (key_filePath (fst entry)) = normalizePath unicode_lower (fsPath editor)
     \<and> parseInt (key_lineStr (fst entry)) = Some (int (range_line d))
     \<and> note_text (hoverMessage d) = snd entry"
proof (cases "parseInt (key_lineStr (fst entry))")
  case None
  with d show ?thesis
    by (simp add: entry_decorations_eq)
next
  case (Some l)
  show ?thesis
  proof (cases "normalizePath unicode_lower (key_filePath (fst entry)) = normalizePath unicode_lower (fsPath editor)
             \<and> 0 \<le> l \<and> l < int (lineCount editor)")
    case True
    with d Some show ?thesis
      by (auto simp: entry_decorations_eq)
  next
    case False
    then have "entry_decorations unicode_lower editor entry = []"
      unfolding entry_decorations_eq Some by simp
    with d show ?thesis
      by simp
  qed
qed

subsection \<open>Lines outside the document\<close>

text \<open>
  Claim C5. For every case table of the host, the loop never throws. Every decoration it
  emits is on a line below the line count of the editor, and comes from an entry whose
  path matches and whose line portion parses to that line. An entry whose line portion
  does not parse, or parses to a line that is negative or at least the line count, adds
  no decoration: the result is the same as without the entry.
\<close>

theorem render_lines_in_range:
  "\<exists>ds. decorations_of unicode_lower editor entries = Inr ds
     \<and> (\<forall>d \<in> set ds. range_line d < lineCount editor
          \<and> (\<exists>entry \<in> set entries.
                normalizePath unicode_lower (key_filePath (fst entry)) = normalizePath unicode_lower (fsPath editor)
                \<and> parseInt (key_lineStr (fst entry)) = Some (int (range_line d))
                \<and> note_text (hoverMessage d) = snd entry))
     \<and> (\<forall>before after key text.
          entries = before @ (key, text) # after
          \<and> (parseInt (key_lineStr key) = None
               \<or> (\<exists>l. parseInt (key_lineStr key) = Some l \<and> (l < 0 \<or> int (lineCount editor) \<le> l)))
          \<longrightarrow> decorations_of unicode_lower editor entries = decorations_of unicode_lower editor (before @ after))"
proof -
  let ?ds = "concat (map (entry_decorations unicode_lower editor) entries)"
  have 1: "decorations_of unicode_lower editor entries = Inr ?ds"
    by (rule decorations_of_concat)
  have 2: "\<forall>d \<in> set ?ds. range_line d < lineCount editor
          \<and> (\<exists>entry \<in> set entries.
                normalizePath unicode_lower (key_filePath (fst entry)) = normalizePath unicode_lower (fsPath editor)
                \<and> parseInt (key_lineStr (fst entry)) = Some (int (range_line d))
                \<and> note_text (hoverMessage d) = snd entry)"
  proof
    fix d assume "d \<in> set ?ds"
    then obtain entry where e: "entry \<in> set entries" "d \<in> set (entry_decorations unicode_lower editor entry)"
      by auto
    from entry_decorations_cases[OF e(2)] e(1)
    show "range_line d < lineCount editor
          \<and> (\<exists>entry \<in> set entries.
                normalizePath unicode_lower (key_filePath (fst entry)) = normalizePath unicode_lower (fsPath editor)
                \<and> parseInt (key_lineStr (fst entry)) = Some (int (range_line d))
                \<and> note_text (hoverMessage d) = snd entry)"
      by blast
  qed
  have 3: "\<forall>before after key text.
          entries = before @ (key, text) # after
          \<and> (parseInt (key_lineStr key) = None
               \<or> (\<exists>l. parseInt (key_lineStr key) = Some l \<and> (l < 0 \<or> int (lineCount editor) \<le> l)))
          \<longrightarrow> decorations_of unicode_lower editor entries = decorations_of unicode_lower editor (before @ after)"
    by (auto simp: decorations_of_concat entry_decorations_def)
  from 1 2 3 show ?thesis by blast
qed

theorem render_lines_in_range_witness:
  "decorations_of example_unicode_lower
     \<lparr>fsPath = [47, 1087, 1088, 1086, 1077, 1082, 1090] @ str ''/main.ts'', lineCount = 10, cursorLine = 0\<rparr>
     [([47, 1055, 1056, 1054, 1045, 1050, 1058] @ str ''/Main.ts::10'', str ''past the end''),
      ([47, 1055, 1056, 1054, 1045, 1050, 1058] @ str ''/Main.ts::9'', str ''last line'')]
   = Inr [\<lparr>range_line = 9,
           hoverMessage = \<lparr>note_text = str ''last line'',
                           link_filePath = [47, 1055, 1056, 1054, 1045, 1050, 1058] @ str ''/Main.ts'',
                           link_line = 9\<rparr>\<rparr>]"
proof -
  let ?u = example_unicode_lower
  let ?ed = "\<lparr>fsPath = [47, 1087, 1088, 1086, 1077, 1082, 1090] @ str ''/main.ts'', lineCount = 10, cursorLine = 0\<rparr>"
  let ?k10 = "[47, 1055, 1056, 1054, 1045, 1050, 1058] @ str ''/Main.ts::10''"
  let ?k9 = "[47, 1055, 1056, 1054, 1045, 1050, 1058] @ str ''/Main.ts::9''"
  let ?es = "[(?k10, str ''past the end''), (?k9, str ''last line'')]"
  have e: "?es = [] @ (?k10, str ''past the end'') # [(?k9, str ''last line'')]"
    by simp
  have h: "parseInt (key_lineStr ?k10) = None
      \<or> (\<exists>l. parseInt (key_lineStr ?k10) = Some l \<and> (l < 0 \<or> int (lineCount ?ed) \<le> l))"
    by (simp add: key_lineStr_def str_def parseInt_def parseInt_string_def is_white_space_def
        is_digit_def digits_value_def)
  from render_lines_in_range[of ?u ?ed ?es]
  have "\<forall>before after key text.
          ?es = before @ (key, text) # after
          \<and> (parseInt (key_lineStr key) = None
               \<or> (\<exists>l. parseInt (key_lineStr key) = Some l \<and> (l < 0 \<or> int (lineCount ?ed) \<le> l)))
          \<longrightarrow> decorations_of ?u ?ed ?es = decorations_of ?u ?ed (before @ after)"
    by blast
  from this[rule_format, OF conjI[OF e h]]
  have "decorations_of ?u ?ed ?es = decorations_of ?u ?ed [(?k9, str ''last line'')]"
    by (simp only: append_Nil)
  also have "\<dots> = Inr [\<lparr>range_line = 9,
           hoverMessage = \<lparr>note_text = str ''last line'',
                           link_filePath = [47, 1055, 1056, 1054, 1045, 1050, 1058] @ str ''/Main.ts'',
                           link_line = 9\<rparr>\<rparr>]"
    by (simp add: str_def parseInt_def parseInt_string_def is_white_space_def is_digit_def digits_value_def
        toLowerCase_def replace_backslashes_def example_unicode_lower_def new_Range_def)
  finally show ?thesis .
qed

subsection \<open>Decoding the line portion\<close>





subsection \<open>The commands\<close>

lemma saveNotes_typed:
  "saveNotes context (s\<lparr>notes := Notes obj\<rparr>) = Some (saved context obj s)"
  by (cases "saveNotes_try (getNotesFilePath context) obj (disk s)")
     (simp add: saveNotes_def saved_def save_event_def emit_def Let_def split: option.split)

lemma updateDecorations_typed:
  "notes s = Notes obj \<Longrightarrow> updateDecorations unicode_lower editor s = Some (decorated unicode_lower editor obj s)"
  by (simp add: updateDecorations_def decorations_of_concat decorated_def emit_def)

lemma notes_saved [simp]: "notes (saved context obj s) = Notes obj"
  by (simp add: saved_def)

lemma notes_decorated [simp]: "notes (decorated unicode_lower editor obj s) = notes s"
  by (simp add: decorated_def)

lemma disk_decorated [simp]: "disk (decorated unicode_lower editor obj s) = disk s"
  by (simp add: decorated_def)

lemma addNote_effect:
  assumes "activeTextEditor context = Some editor" and "notes s = Notes obj" and "text \<noteq> []"
  shows "addNote unicode_lower context (Some text) s =
           Some (emit (InformationMessage ''Note added!'')
                  (decorated unicode_lower editor (obj_put obj (noteKey (fsPath editor) (cursorLine editor)) text)
                    (saved context (obj_put obj (noteKey (fsPath editor) (cursorLine editor)) text)
                      (emit (InputBox ''Enter your note'' []) s))))"
  using assms
  by (simp add: addNote_def Let_def saveNotes_typed updateDecorations_typed emit_def)

lemma editNote_effect:
  assumes "notes s = Notes obj"
  shows "editNote unicode_lower context (Some \<lparr>arg_filePath = Some f, arg_line = Some n\<rparr>) (Some text) s =
           Some (emit (InformationMessage ''Note updated!'')
                  ((case find (\<lambda>e. fsPath e = f) (visibleTextEditors context) of
                      None \<Rightarrow> (\<lambda>s. s)
                    | Some editor \<Rightarrow> decorated unicode_lower editor (obj_put obj (noteKey f n) text))
                    (saved context (obj_put obj (noteKey f n) text)
                      (emit (InputBox ''Edit your note''
                               (case map_of obj (noteKey f n) of None \<Rightarrow> [] | Some old \<Rightarrow> old)) s))))"
  using assms
  by (simp add: editNote_def Let_def saveNotes_typed updateDecorations_typed emit_def
      split: option.split)

lemma map_of_insert_index:
  "k \<notin> fst ` set obj \<Longrightarrow> map_of (insert_index i (k, v) obj) = (map_of obj)(k \<mapsto> v)"
  by (induction obj) (auto split: option.splits simp: fun_eq_iff)

lemma set_insert_index: "set (insert_index i e obj) = insert e (set obj)"
  by (induction obj) (auto split: option.splits)

lemma map_of_replace_other:
  "x \<noteq> k \<Longrightarrow> map_of (map (\<lambda>(k', v'). if k' = k then (k', v) else (k', v')) obj) x = map_of obj x"
  by (induction obj) (simp_all add: case_prod_unfold)

lemma map_of_replace_same:
  "k \<in> fst ` set obj \<Longrightarrow> map_of (map (\<lambda>(k', v'). if k' = k then (k', v) else (k', v')) obj) k = Some v"
  by (induction obj) (auto simp: case_prod_unfold)

lemma map_of_replace:
  "k \<in> fst ` set obj \<Longrightarrow>
   map_of (map (\<lambda>(k', v'). if k' = k then (k', v) else (k', v')) obj) = (map_of obj)(k \<mapsto> v)"
proof (rule ext)
  fix x assume "k \<in> fst ` set obj"
  then show "map_of (map (\<lambda>(k', v'). if k' = k then (k', v) else (k', v')) obj) x = ((map_of obj)(k \<mapsto> v)) x"
    by (cases "x = k") (simp_all add: map_of_replace_other map_of_replace_same)
qed

lemma map_of_snoc:
  "k \<notin> fst ` set obj \<Longrightarrow> map_of (obj @ [(k, v)]) = (map_of obj)(k \<mapsto> v)"
  by (induction obj) (auto simp: fun_eq_iff)

lemma map_of_obj_put: "map_of (obj_put obj k v) = (map_of obj)(k \<mapsto> v)"
proof (cases "k \<in> fst ` set obj")
  case True
  then show ?thesis
    by (simp add: obj_put_def map_of_replace)
next
  case False
  then show ?thesis
    by (cases "array_index k")
       (simp_all add: obj_put_def map_of_insert_index map_of_snoc del: map_of_append)
qed

lemma filter_key_absent: "k \<notin> fst ` set obj \<Longrightarrow> filter (\<lambda>e. fst e = k) obj = []"
  by (induction obj) auto

lemma filter_key_insert_index:
  "k \<notin> fst ` set obj \<Longrightarrow> filter (\<lambda>e. fst e = k) (insert_index i (k, v) obj) = [(k, v)]"
  by (induction obj) (auto split: option.splits simp: filter_key_absent)

lemma filter_key_replace:
  "distinct (map fst obj) \<Longrightarrow> k \<in> fst ` set obj \<Longrightarrow>
   filter (\<lambda>e. fst e = k) (map (\<lambda>(k', v'). if k' = k then (k', v) else (k', v')) obj) = [(k, v)]"
proof (induction obj)
  case Nil
  then show ?case by simp
next
  case (Cons e obj)
  obtain k' v' where e: "e = (k', v')" by (cases e)
  show ?case
  proof (cases "k' = k")
    case True
    with Cons.prems e have "k \<notin> fst ` set obj" by auto
    then have "filter (\<lambda>e. fst e = k) (map (\<lambda>(k', v'). if k' = k then (k', v) else (k', v')) obj) = []"
      by (induction obj) auto
    with True e show ?thesis by simp
  next
    case False
    with Cons e show ?thesis by auto
  qed
qed

lemma filter_key_obj_put:
  "distinct (map fst obj) \<Longrightarrow> filter (\<lambda>e. fst e = k) (obj_put obj k v) = [(k, v)]"
  by (cases "array_index k")
     (auto simp: obj_put_def filter_key_replace filter_key_insert_index filter_key_absent)

lemma keys_replace:
  "map (fst \<circ> (\<lambda>(k', v'). if k' = k then (k', v) else (k', v'))) obj = map fst obj"
  by (induction obj) auto

lemma distinct_insert_index:
  "distinct (map fst obj) \<Longrightarrow> fst e \<notin> fst ` set obj \<Longrightarrow> distinct (map fst (insert_index i e obj))"
  by (induction obj) (auto split: option.splits simp: set_insert_index)

lemma distinct_obj_put: "distinct (map fst obj) \<Longrightarrow> distinct (map fst (obj_put obj k v))"
  by (cases "array_index k") (auto simp: obj_put_def keys_replace distinct_insert_index)

lemma saveNotes_try_writes:
  "\<not> write_fails fs \<Longrightarrow>
   contents (fst (saveNotes_try p obj fs)) p = Some (utf8_text (JSON_stringify obj))
   \<and> snd (saveNotes_try p obj fs) = None
   \<and> read_fails (fst (saveNotes_try p obj fs)) = read_fails fs"
  by (simp add: saveNotes_try_def Let_def existsSync_dir_def mkdirSync_def writeFileSync_def)

subsection \<open>The edit command with missing arguments\<close>

text \<open>
  Claim C6. When the argument of \<^verbatim>\<open>code-canvas.editNote\<close> is absent, or its
  \<^verbatim>\<open>filePath\<close> or its \<^verbatim>\<open>line\<close> is undefined, the command shows the error message
  about invalid arguments and does nothing else: the notes and the disk are unchanged,
  whatever the answer would have been.
\<close>

theorem edit_invalid_arguments:
  assumes "args = None \<or> (\<exists>a. args = Some a \<and> (arg_filePath a = None \<or> arg_line a = None))"
  shows "\<exists>s'. editNote unicode_lower context args answer s = Some s'
           \<and> notes s' = notes s \<and> disk s' = disk s
           \<and> events s' = events s @ [ErrorMessage ''Invalid arguments passed to Edit Note command.'']"
  using assms
  by (auto simp: editNote_def emit_def split: option.splits)

subsection \<open>The add command\<close>


subsection \<open>The editor the edit command decorates\<close>

text \<open>
  Claim C10. After an accepted answer the edit command stores the text, saves, and then
  decorates the first visible editor whose path is equal, as a string, to the
  \<^verbatim>\<open>filePath\<close> of the invocation. When no visible editor has exactly that path, no
  decoration is set, while the note is stored and saved and the message is shown. The
  example after it is an editor whose path is equal to the \<^verbatim>\<open>filePath\<close> only after
  normalization.
\<close>

theorem edit_rerenders_exact_path_only:
  assumes "notes s = Notes obj"
  shows "\<exists>s' obj' result.
           editNote unicode_lower context (Some \<lparr>arg_filePath = Some f, arg_line = Some n\<rparr>) (Some text) s = Some s'
           \<and> obj' = obj_put obj (noteKey f n) text
           \<and> result = saveNotes_try (getNotesFilePath context) obj' (disk s)
           \<and> notes s' = Notes obj'
           \<and> disk s' = fst result
           \<and> events s' = events s @
                [InputBox ''Edit your note'' (case map_of obj (noteKey f n) of None \<Rightarrow> [] | Some old \<Rightarrow> old),
                 ConsoleLog ''Saving notes to:'', save_event (snd result)] @
                (case find (\<lambda>e. fsPath e = f) (visibleTextEditors context) of
                   None \<Rightarrow> []
                 | Some editor \<Rightarrow>
                     [ConsoleLog ''Applying decorations:'',
                      SetDecorations editor (concat (map (entry_decorations unicode_lower editor) obj'))]) @
                [InformationMessage ''Note updated!'']
           \<and> ((\<forall>e \<in> set (visibleTextEditors context). fsPath e \<noteq> f) \<longrightarrow>
                events s' = events s @
                  [InputBox ''Edit your note'' (case map_of obj (noteKey f n) of None \<Rightarrow> [] | Some old \<Rightarrow> old),
                   ConsoleLog ''Saving notes to:'', save_event (snd result),
                   InformationMessage ''Note updated!''])"
proof -
  have none: "(\<forall>e \<in> set (visibleTextEditors context). fsPath e \<noteq> f) \<Longrightarrow>
      find (\<lambda>e. fsPath e = f) (visibleTextEditors context) = None"
    by (simp add: find_None_iff)
  show ?thesis
    unfolding editNote_effect[OF assms]
    using none
    by (cases "find (\<lambda>e. fsPath e = f) (visibleTextEditors context)")
       (auto simp: emit_def decorated_def saved_def)
qed

subsection \<open>The hover of an empty note\<close>

text \<open>
  Claim C9. The hover returns nothing when the key has no note and also when its note is
  the empty string; it returns the text and the edit link for every other note. The edit
  command stores the empty string when the answer is empty, and the hover of that entry
  is then nothing.
\<close>

theorem hover_ignores_empty_text:
  "(map_of obj (noteKey f n) = None \<or> map_of obj (noteKey f n) = Some [] \<longrightarrow>
      provideHover obj f n = None)
   \<and> (\<forall>text. map_of obj (noteKey f n) = Some text \<and> text \<noteq> [] \<longrightarrow>
        provideHover obj f n = Some \<lparr>note_text = text, link_filePath = f, link_line = n\<rparr>)
   \<and> (notes s = Notes obj \<longrightarrow>
        (\<exists>s' obj'. editNote unicode_lower context (Some \<lparr>arg_filePath = Some f, arg_line = Some n\<rparr>) (Some []) s = Some s'
           \<and> notes s' = Notes obj' \<and> map_of obj' (noteKey f n) = Some []
           \<and> provideHover obj' f n = None))"
proof -
  have 1: "map_of obj (noteKey f n) = None \<or> map_of obj (noteKey f n) = Some [] \<longrightarrow>
      provideHover obj f n = None"
    by (auto simp: provideHover_def)
  have 2: "\<forall>text. map_of obj (noteKey f n) = Some text \<and> text \<noteq> [] \<longrightarrow>
        provideHover obj f n = Some \<lparr>note_text = text, link_filePath = f, link_line = n\<rparr>"
    by (auto simp: provideHover_def)
  have 3: "\<exists>s' obj'. editNote unicode_lower context (Some \<lparr>arg_filePath = Some f, arg_line = Some n\<rparr>) (Some []) s = Some s'
           \<and> notes s' = Notes obj' \<and> map_of obj' (noteKey f n) = Some []
           \<and> provideHover obj' f n = None"
    if a: "notes s = Notes obj"
    unfolding editNote_effect[OF a]
    by (cases "find (\<lambda>e. fsPath e = f) (visibleTextEditors context)")
       (auto simp: emit_def map_of_obj_put provideHover_def)
  from 1 2 3 show ?thesis by blast
qed

lemma editNote_notes:
  assumes "notes s = Notes obj"
  shows "\<exists>s'. editNote unicode_lower context (Some \<lparr>arg_filePath = Some f, arg_line = Some n\<rparr>) (Some entered) s = Some s'
           \<and> notes s' = Notes (obj_put obj (noteKey f n) entered)"
  unfolding editNote_effect[OF assms]
  by (cases "find (\<lambda>e. fsPath e = f) (visibleTextEditors context)") (auto simp: emit_def)

lemma addNote_notes:
  assumes "activeTextEditor context = Some editor" and "notes s = Notes obj" and "entered \<noteq> []"
  shows "\<exists>s'. addNote unicode_lower context (Some entered) s = Some s'
           \<and> notes s' = Notes (obj_put obj (noteKey (fsPath editor) (cursorLine editor)) entered)"
  unfolding addNote_effect[OF assms]
  by (simp add: emit_def)

subsection \<open>A second write to the same key\<close>

text \<open>
  Claim C2. Two writes to the same file path and line, the first with text \<open>a\<close> and the
  second with text \<open>b\<close>, leave exactly one entry for the key, with text \<open>b\<close>. This holds
  for the edit command with any two answers, and for the add command with any two
  non-empty answers (an empty answer writes nothing there).
\<close>

theorem second_write_overwrites:
  assumes "notes s = Notes obj" and "distinct (map fst obj)"
  shows "(\<exists>s1 s2 obj2.
            editNote unicode_lower context (Some \<lparr>arg_filePath = Some f, arg_line = Some n\<rparr>) (Some a) s = Some s1
            \<and> editNote unicode_lower context (Some \<lparr>arg_filePath = Some f, arg_line = Some n\<rparr>) (Some b) s1 = Some s2
            \<and> notes s2 = Notes obj2
            \<and> filter (\<lambda>e. fst e = noteKey f n) obj2 = [(noteKey f n, b)])
       \<and> (activeTextEditor context = Some editor \<and> a \<noteq> [] \<and> b \<noteq> [] \<longrightarrow>
            (\<exists>s1 s2 obj2.
               addNote unicode_lower context (Some a) s = Some s1
               \<and> addNote unicode_lower context (Some b) s1 = Some s2
               \<and> notes s2 = Notes obj2
               \<and> filter (\<lambda>e. fst e = noteKey (fsPath editor) (cursorLine editor)) obj2 =
                    [(noteKey (fsPath editor) (cursorLine editor), b)]))"
proof -
  have d: "distinct (map fst (obj_put obj k a))" for k
    by (rule distinct_obj_put[OF assms(2)])
  have edit: "\<exists>s1 s2 obj2.
            editNote unicode_lower context (Some \<lparr>arg_filePath = Some f, arg_line = Some n\<rparr>) (Some a) s = Some s1
            \<and> editNote unicode_lower context (Some \<lparr>arg_filePath = Some f, arg_line = Some n\<rparr>) (Some b) s1 = Some s2
            \<and> notes s2 = Notes obj2
            \<and> filter (\<lambda>e. fst e = noteKey f n) obj2 = [(noteKey f n, b)]"
  proof -
    obtain s1 where s1: "editNote unicode_lower context (Some \<lparr>arg_filePath = Some f, arg_line = Some n\<rparr>) (Some a) s = Some s1"
      and n1: "notes s1 = Notes (obj_put obj (noteKey f n) a)"
      using editNote_notes[OF assms(1)] by blast
    obtain s2 where s2: "editNote unicode_lower context (Some \<lparr>arg_filePath = Some f, arg_line = Some n\<rparr>) (Some b) s1 = Some s2"
      and n2: "notes s2 = Notes (obj_put (obj_put obj (noteKey f n) a) (noteKey f n) b)"
      using editNote_notes[OF n1] by blast
    from s1 s2 n2 filter_key_obj_put[OF d] show ?thesis by blast
  qed
  have add: "\<exists>s1 s2 obj2.
               addNote unicode_lower context (Some a) s = Some s1
               \<and> addNote unicode_lower context (Some b) s1 = Some s2
               \<and> notes s2 = Notes obj2
               \<and> filter (\<lambda>e. fst e = noteKey (fsPath editor) (cursorLine editor)) obj2 =
                    [(noteKey (fsPath editor) (cursorLine editor), b)]"
    if h: "activeTextEditor context = Some editor" "a \<noteq> []" "b \<noteq> []"
  proof -
    let ?k = "noteKey (fsPath editor) (cursorLine editor)"
    obtain s1 where s1: "addNote unicode_lower context (Some a) s = Some s1"
      and n1: "notes s1 = Notes (obj_put obj ?k a)"
      using addNote_notes[OF h(1) assms(1) h(2)] by blast
    obtain s2 where s2: "addNote unicode_lower context (Some b) s1 = Some s2"
      and n2: "notes s2 = Notes (obj_put (obj_put obj ?k a) ?k b)"
      using addNote_notes[OF h(1) n1 h(3)] by blast
    from s1 s2 n2 filter_key_obj_put[OF d] show ?thesis by blast
  qed
  from edit add show ?thesis by blast
qed

theorem edit_invalid_arguments_witness:
  "\<exists>s'. editNote example_unicode_lower repo_host (Some \<lparr>arg_filePath = None, arg_line = Some 5\<rparr>) (Some (str ''new''))
           (initial_state empty_disk) = Some s'
         \<and> notes s' = Notes []
         \<and> events s' = [ErrorMessage ''Invalid arguments passed to Edit Note command.'']"
  using edit_invalid_arguments[where unicode_lower = example_unicode_lower, of "Some \<lparr>arg_filePath = None, arg_line = Some 5\<rparr>" repo_host
      "Some (str ''new'')" "initial_state empty_disk"]
  by (auto simp: initial_state_def)


theorem edit_rerenders_exact_path_only_witness:
  "normalizePath example_unicode_lower windows_path = normalizePath example_unicode_lower (fsPath proj_editor)
   \<and> (\<exists>s'. editNote example_unicode_lower proj_host (Some \<lparr>arg_filePath = Some windows_path, arg_line = Some 3\<rparr>)
               (Some (str ''t'')) (initial_state empty_disk) = Some s'
          \<and> notes s' = Notes [(noteKey windows_path 3, str ''t'')]
          \<and> contents (disk s') (Path (str ''/global'') (str ''code-notes.json'')) =
               Some (JSON_stringify [(noteKey windows_path 3, str ''t'')])
          \<and> events s' =
               [InputBox ''Edit your note'' [], ConsoleLog ''Saving notes to:'',
                ConsoleLog ''Notes saved:'', InformationMessage ''Note updated!''])"
proof -
  let ?k = "noteKey windows_path 3"
  have np: "normalizePath example_unicode_lower windows_path = normalizePath example_unicode_lower (fsPath proj_editor)"
    by (simp add: windows_path_def proj_editor_def normalizePath_def toLowerCase_def
        replace_backslashes_def ascii_lower_def str_def)
  have ne: "\<forall>e \<in> set (visibleTextEditors proj_host). fsPath e \<noteq> windows_path"
    by (simp add: proj_host_def proj_editor_def windows_path_def str_def)
  have kv: "?k = str ''C:'' @ [92] @ str ''Proj'' @ [92] @ str ''a.ts::3''"
    by (simp add: noteKey_def windows_path_def str_def dec.simps)
  have o: "obj_put [] ?k (str ''t'') = [(?k, str ''t'')]"
    unfolding kv by (simp add: obj_put_def array_index_def str_def is_digit_def)
  have p: "getNotesFilePath proj_host = Path (str ''/global'') (str ''code-notes.json'')"
    by (simp add: getNotesFilePath_def proj_host_def)
  have u: "utf8_text (JSON_stringify [(?k, str ''t'')]) = JSON_stringify [(?k, str ''t'')]"
    unfolding kv
    by (simp add: JSON_stringify_def QuoteJSONString_def quote_unit_def str_def
        is_high_surrogate_def is_low_surrogate_def utf8_unit_def)
  have w: "\<not> write_fails empty_disk"
    by (simp add: empty_disk_def)
  have n0: "notes (initial_state empty_disk) = Notes []"
    by (simp add: initial_state_def)
  have dk: "disk (initial_state empty_disk) = empty_disk" "events (initial_state empty_disk) = []"
    by (simp_all add: initial_state_def)
  from edit_rerenders_exact_path_only[where unicode_lower = example_unicode_lower, OF n0, of proj_host windows_path 3 "str ''t''"] ne
  obtain s' where s: "editNote example_unicode_lower proj_host (Some \<lparr>arg_filePath = Some windows_path, arg_line = Some 3\<rparr>)
               (Some (str ''t'')) (initial_state empty_disk) = Some s'"
    and n: "notes s' = Notes (obj_put [] ?k (str ''t''))"
    and d: "disk s' = fst (saveNotes_try (getNotesFilePath proj_host) (obj_put [] ?k (str ''t'')) (disk (initial_state empty_disk)))"
    and e: "events s' = events (initial_state empty_disk) @
                  [InputBox ''Edit your note'' (case map_of [] ?k of None \<Rightarrow> [] | Some old \<Rightarrow> old),
                   ConsoleLog ''Saving notes to:'',
                   save_event (snd (saveNotes_try (getNotesFilePath proj_host) (obj_put [] ?k (str ''t'')) (disk (initial_state empty_disk)))),
                   InformationMessage ''Note updated!'']"
    by blast
  from s n d e saveNotes_try_writes[OF w, of "Path (str ''/global'') (str ''code-notes.json'')" "[(?k, str ''t'')]"]
  have "editNote example_unicode_lower proj_host (Some \<lparr>arg_filePath = Some windows_path, arg_line = Some 3\<rparr>)
               (Some (str ''t'')) (initial_state empty_disk) = Some s'
          \<and> notes s' = Notes [(?k, str ''t'')]
          \<and> contents (disk s') (Path (str ''/global'') (str ''code-notes.json'')) =
               Some (JSON_stringify [(?k, str ''t'')])
          \<and> events s' =
               [InputBox ''Edit your note'' [], ConsoleLog ''Saving notes to:'',
                ConsoleLog ''Notes saved:'', InformationMessage ''Note updated!'']"
    unfolding o p u dk by (simp add: save_event_def)
  with np show ?thesis by blast
qed

theorem hover_ignores_empty_text_witness:
  "provideHover [(str ''/repo/main.ts::5'', [])] (str ''/repo/main.ts'') 5 = None
   \<and> provideHover [(str ''/repo/main.ts::5'', str ''fix this'')] (str ''/repo/main.ts'') 5 =
        Some \<lparr>note_text = str ''fix this'', link_filePath = str ''/repo/main.ts'', link_line = 5\<rparr>
   \<and> (\<exists>s' obj'. editNote example_unicode_lower repo_host (Some \<lparr>arg_filePath = Some (str ''/repo/main.ts''), arg_line = Some 5\<rparr>)
          (Some []) (initial_state empty_disk) = Some s'
          \<and> notes s' = Notes obj' \<and> map_of obj' (noteKey (str ''/repo/main.ts'') 5) = Some []
          \<and> provideHover obj' (str ''/repo/main.ts'') 5 = None)"
proof -
  have k: "noteKey (str ''/repo/main.ts'') 5 = str ''/repo/main.ts::5''"
    by (simp add: noteKey_def str_def dec.simps)
  have ne: "str ''fix this'' \<noteq> []" by (simp add: str_def)
  have 1: "provideHover [(str ''/repo/main.ts::5'', [])] (str ''/repo/main.ts'') 5 = None"
    using hover_ignores_empty_text[where unicode_lower = example_unicode_lower, of "[(str ''/repo/main.ts::5'', [])]" "str ''/repo/main.ts''" 5]
    by (simp add: k)
  have 2: "provideHover [(str ''/repo/main.ts::5'', str ''fix this'')] (str ''/repo/main.ts'') 5 =
        Some \<lparr>note_text = str ''fix this'', link_filePath = str ''/repo/main.ts'', link_line = 5\<rparr>"
    using hover_ignores_empty_text[where unicode_lower = example_unicode_lower, of "[(str ''/repo/main.ts::5'', str ''fix this'')]" "str ''/repo/main.ts''" 5] ne
    by (simp add: k)
  have 3: "\<exists>s' obj'. editNote example_unicode_lower repo_host (Some \<lparr>arg_filePath = Some (str ''/repo/main.ts''), arg_line = Some 5\<rparr>)
          (Some []) (initial_state empty_disk) = Some s'
          \<and> notes s' = Notes obj' \<and> map_of obj' (noteKey (str ''/repo/main.ts'') 5) = Some []
          \<and> provideHover obj' (str ''/repo/main.ts'') 5 = None"
    using hover_ignores_empty_text[where unicode_lower = example_unicode_lower, of "[]" "str ''/repo/main.ts''" 5 "initial_state empty_disk" repo_host]
    by (simp add: initial_state_def)
  from 1 2 3 show ?thesis by blast
qed

theorem second_write_overwrites_witness:
  "(\<exists>s1 s2 obj2.
      editNote example_unicode_lower repo_host (Some \<lparr>arg_filePath = Some (str ''/repo/main.ts''), arg_line = Some 3\<rparr>)
        (Some (str ''a'')) (initial_state empty_disk) = Some s1
      \<and> editNote example_unicode_lower repo_host (Some \<lparr>arg_filePath = Some (str ''/repo/main.ts''), arg_line = Some 3\<rparr>)
          (Some (str ''b'')) s1 = Some s2
      \<and> notes s2 = Notes obj2
      \<and> filter (\<lambda>e. fst e = noteKey (str ''/repo/main.ts'') 3) obj2 =
           [(noteKey (str ''/repo/main.ts'') 3, str ''b'')])
   \<and> (\<exists>s1 s2 obj2.
      addNote example_unicode_lower repo_host (Some (str ''a'')) (initial_state empty_disk) = Some s1
      \<and> addNote example_unicode_lower repo_host (Some (str ''b'')) s1 = Some s2
      \<and> notes s2 = Notes obj2
      \<and> filter (\<lambda>e. fst e = noteKey (str ''/repo/main.ts'') 5) obj2 =
           [(noteKey (str ''/repo/main.ts'') 5, str ''b'')])"
proof -
  have n0: "notes (initial_state empty_disk) = Notes []"
    by (simp add: initial_state_def)
  have d0: "distinct (map fst ([] :: (jsstring \<times> jsstring) list))"
    by simp
  have a: "activeTextEditor repo_host = Some main_editor
      \<and> str ''a'' \<noteq> [] \<and> str ''b'' \<noteq> []"
    by (simp add: repo_host_def str_def)
  have m: "fsPath main_editor = str ''/repo/main.ts''" "cursorLine main_editor = 5"
    by (simp_all add: main_editor_def)
  from second_write_overwrites[where unicode_lower = example_unicode_lower, OF n0 d0, of repo_host "str ''/repo/main.ts''" 3 "str ''a''" "str ''b''" main_editor] a
  show ?thesis
    unfolding m by blast
qed

subsection \<open>The JSON text of the notes\<close>

lemma hex_value_hex_digit: "d < 16 \<Longrightarrow> hex_value (hex_digit d) = Some d"
  by (auto simp: hex_value_def hex_digit_def)

lemma hex4_value:
  assumes "c < 65536"
  shows "4096 * (c div 4096 mod 16) + 256 * (c div 256 mod 16) + 16 * (c div 16 mod 16) + c mod 16 = (c::nat)"
proof -
  have 1: "c = 16 * (c div 16) + c mod 16" by simp
  have 2: "c div 16 = 16 * (c div 16 div 16) + c div 16 mod 16" by simp
  have 3: "c div 16 div 16 = c div 256" by (simp add: div_mult2_eq)
  have 4: "c div 256 = 16 * (c div 256 div 16) + c div 256 mod 16" by simp
  have 5: "c div 256 div 16 = c div 4096" by (simp add: div_mult2_eq)
  have "c div 4096 < 16" using assms by (simp add: less_mult_imp_div_less)
  then have 6: "c div 4096 mod 16 = c div 4096" by simp
  from 1 2 3 4 5 6 show ?thesis by linarith
qed

lemma scan_string_unicode_escape:
  assumes "c < 65536"
  shows "scan_string (unicode_escape c @ rest) =
           (case scan_string rest of None \<Rightarrow> None | Some (s, r) \<Rightarrow> Some (c # s, r))"
proof -
  have d: "c div 4096 mod 16 < 16" "c div 256 mod 16 < 16" "c div 16 mod 16 < 16" "c mod 16 < 16"
    by simp_all
  have "scan_string (unicode_escape c @ rest) =
           (case scan_string rest of None \<Rightarrow> None
            | Some (s, r) \<Rightarrow> Some ((4096 * (c div 4096 mod 16) + 256 * (c div 256 mod 16) + 16 * (c div 16 mod 16) + c mod 16) # s, r))"
    unfolding unicode_escape_def
    by (simp add: hex_value_hex_digit[OF d(1)] hex_value_hex_digit[OF d(2)]
        hex_value_hex_digit[OF d(3)] hex_value_hex_digit[OF d(4)])
  then show ?thesis
    unfolding hex4_value[OF assms] .
qed

lemma scan_string_plain:
  "c \<noteq> 34 \<Longrightarrow> c \<noteq> 92 \<Longrightarrow> \<not> c < 32 \<Longrightarrow>
   scan_string (c # rest) = (case scan_string rest of None \<Rightarrow> None | Some (s, r) \<Rightarrow> Some (c # s, r))"
  by simp

lemma scan_string_quote_unit:
  "scan_string (quote_unit c @ rest) =
     (case scan_string rest of None \<Rightarrow> None | Some (s, r) \<Rightarrow> Some (c # s, r))"
proof -
  consider (short) "c = 8 \<or> c = 9 \<or> c = 10 \<or> c = 12 \<or> c = 13 \<or> c = 34 \<or> c = 92"
    | (long) "\<not> (c = 8 \<or> c = 9 \<or> c = 10 \<or> c = 12 \<or> c = 13 \<or> c = 34 \<or> c = 92)"
        "c < 32 \<or> is_high_surrogate c \<or> is_low_surrogate c"
    | (plain) "\<not> (c = 8 \<or> c = 9 \<or> c = 10 \<or> c = 12 \<or> c = 13 \<or> c = 34 \<or> c = 92)"
        "\<not> (c < 32 \<or> is_high_surrogate c \<or> is_low_surrogate c)"
    by blast
  then show ?thesis
  proof cases
    case short
    then show ?thesis
      by (elim disjE; hypsubst) (simp_all add: quote_unit_def unescape_def)
  next
    case long
    then have "c < 65536"
      by (auto simp: is_high_surrogate_def is_low_surrogate_def)
    from scan_string_unicode_escape[OF this] long show ?thesis
      by (simp add: quote_unit_def del: scan_string.simps)
  next
    case plain
    then have q: "quote_unit c = [c]"
      by (simp add: quote_unit_def)
    from plain show ?thesis
      unfolding q by (simp add: scan_string_plain del: scan_string.simps)
  qed
qed

lemma scan_string_quote_units:
  "scan_string (quote_units s @ 34 # rest) = Some (s, rest)"
proof (induction s rule: quote_units.induct)
  case 1
  show ?case by simp
next
  case (2 c)
  have "scan_string (34 # rest) = Some ([], rest)"
    by simp
  then show ?case
    by (simp add: scan_string_quote_unit del: scan_string.simps)
next
  case (3 a b cs)
  show ?case
  proof (cases "is_high_surrogate a \<and> is_low_surrogate b")
    case True
    then have "a \<noteq> 34" "a \<noteq> 92" "\<not> a < 32" "b \<noteq> 34" "b \<noteq> 92" "\<not> b < 32"
      by (auto simp: is_high_surrogate_def is_low_surrogate_def)
    with True 3(1) show ?thesis
      by (simp add: scan_string_plain del: scan_string.simps)
  next
    case False
    then have q: "quote_units (a # b # cs) = quote_unit a @ quote_units (b # cs)"
      by (simp only: quote_units.simps if_not_P if_False)
    from 3(2)[OF False] show ?thesis
      unfolding q by (simp add: scan_string_quote_unit del: scan_string.simps)
  qed
qed

lemma lex_string: "lex (QuoteJSONString s @ rest) = map_option (Cons (TString s)) (lex rest)"
  by (simp add: QuoteJSONString_def scan_string_quote_units)

lemma lex_member:
  "lex (str ''  '' @ QuoteJSONString k @ str '': '' @ QuoteJSONString v @ rest) =
     map_option (\<lambda>ts. TString k # Colon # TString v # ts) (lex rest)"
proof -
  have "lex (str ''  '' @ QuoteJSONString k @ str '': '' @ QuoteJSONString v @ rest) =
        lex (QuoteJSONString k @ (58 # 32 # QuoteJSONString v @ rest))"
    by (simp add: str_def)
  also have "\<dots> = map_option (Cons (TString k)) (lex (58 # 32 # QuoteJSONString v @ rest))"
    by (rule lex_string)
  also have "lex (58 # 32 # QuoteJSONString v @ rest) = map_option (Cons Colon) (lex (QuoteJSONString v @ rest))"
    by simp
  also have "lex (QuoteJSONString v @ rest) = map_option (Cons (TString v)) (lex rest)"
    by (rule lex_string)
  finally show ?thesis
    by (simp add: option.map_comp comp_def)
qed

lemma lex_members:
  "lex (members ms @ rest) = map_option ((@) (member_tokens ms)) (lex rest)"
proof (induction ms arbitrary: rest rule: members.induct)
  case 1
  show ?case by (simp add: option.map_ident)
next
  case (2 k v)
  show ?case
    using lex_member[of k v rest] by (simp add: comp_def)
next
  case (3 k v m ms)
  have "lex (members ((k, v) # m # ms) @ rest) =
        lex (str ''  '' @ QuoteJSONString k @ str '': '' @ QuoteJSONString v @ (44 # 10 # members (m # ms) @ rest))"
    by simp
  also have "\<dots> = map_option (\<lambda>ts. TString k # Colon # TString v # ts) (lex (44 # 10 # members (m # ms) @ rest))"
    by (rule lex_member)
  also have "lex (44 # 10 # members (m # ms) @ rest) = map_option (Cons Comma) (lex (members (m # ms) @ rest))"
    by simp
  finally show ?case
    by (simp add: 3 option.map_comp comp_def)
qed

lemma lex_stringify:
  "lex (JSON_stringify obj) = Some (LBrace # member_tokens obj @ [RBrace])"
proof (cases "obj = []")
  case True
  then show ?thesis by (simp add: JSON_stringify_def str_def)
next
  case False
  have "lex (members obj @ [10, 125]) = Some (member_tokens obj @ [RBrace])"
    unfolding lex_members by simp
  with False show ?thesis
    by (simp add: JSON_stringify_def)
qed

lemma run_member:
  "run Key (InObject obj # fs) (TString k # Colon # TString v # ts) =
     run CommaOrClose (InObject (obj_put obj k (JString v)) # fs) ts"
  by (simp add: step_def begin_value_def)

lemma run_first_member:
  "run KeyOrClose (InObject obj # fs) (TString k # Colon # TString v # ts) =
     run CommaOrClose (InObject (obj_put obj k (JString v)) # fs) ts"
  by (simp add: step_def begin_value_def)

lemma run_more_members:
  "run CommaOrClose [InObject obj] (Comma # member_tokens (m # ms) @ [RBrace]) =
     Some (JObject (foldl (\<lambda>acc (k, v). obj_put acc k (JString v)) obj (m # ms)))"
proof (induction ms arbitrary: obj m)
  case Nil
  obtain k v where m: "m = (k, v)" by (cases m)
  have "run CommaOrClose [InObject obj] (Comma # TString k # Colon # TString v # [RBrace]) =
        run Key [InObject obj] (TString k # Colon # TString v # [RBrace])"
    by (simp add: step_def)
  also have "\<dots> = run CommaOrClose [InObject (obj_put obj k (JString v))] [RBrace]"
    by (rule run_member)
  also have "\<dots> = Some (JObject (obj_put obj k (JString v)))"
    by (simp add: step_def)
  finally show ?case
    unfolding m by simp
next
  case (Cons m' ms)
  obtain k v where m: "m = (k, v)" by (cases m)
  have "run CommaOrClose [InObject obj] (Comma # member_tokens (m # m' # ms) @ [RBrace]) =
        run Key [InObject obj] (TString k # Colon # TString v # Comma # member_tokens (m' # ms) @ [RBrace])"
    unfolding m by (simp add: step_def)
  also have "\<dots> = run CommaOrClose [InObject (obj_put obj k (JString v))] (Comma # member_tokens (m' # ms) @ [RBrace])"
    by (rule run_member)
  also have "\<dots> = Some (JObject (foldl (\<lambda>acc (k, v). obj_put acc k (JString v)) (obj_put obj k (JString v)) (m' # ms)))"
    by (rule Cons.IH)
  finally show ?case
    by (simp add: m)
qed

lemma run_object:
  "run Value [] (LBrace # member_tokens obj @ [RBrace]) =
     Some (JObject (foldl (\<lambda>acc (k, v). obj_put acc k (JString v)) [] obj))"
proof (cases obj)
  case Nil
  then show ?thesis by (simp add: step_def begin_value_def)
next
  case (Cons m ms)
  obtain k v where m: "m = (k, v)" by (cases m)
  show ?thesis
  proof (cases ms)
    case Nil
    with Cons m show ?thesis
      by (simp add: step_def begin_value_def)
  next
    case (Cons m' ms')
    have "run Value [] (LBrace # member_tokens ((k, v) # m' # ms') @ [RBrace]) =
          run KeyOrClose [InObject []] (TString k # Colon # TString v # Comma # member_tokens (m' # ms') @ [RBrace])"
      by (simp add: step_def begin_value_def)
    also have "\<dots> = run CommaOrClose [InObject (obj_put [] k (JString v))] (Comma # member_tokens (m' # ms') @ [RBrace])"
      by (rule run_first_member)
    also have "\<dots> = Some (JObject (foldl (\<lambda>acc (k, v). obj_put acc k (JString v)) (obj_put [] k (JString v)) (m' # ms')))"
      by (rule run_more_members)
    finally show ?thesis
      using \<open>obj = m # ms\<close> m Cons by simp
  qed
qed

lemma key_order_snoc: "key_order (ks @ [k]) \<Longrightarrow> key_order ks"
  by (induction ks) (auto split: option.splits)

lemma key_order_snoc_index:
  "key_order (ks @ [k]) \<Longrightarrow> array_index k = Some i \<Longrightarrow> k' \<in> set ks \<Longrightarrow>
   \<exists>j. array_index k' = Some j \<and> j < i"
  by (induction ks) (auto split: option.splits)

lemma insert_index_last:
  "\<forall>p \<in> set obj. \<exists>j. array_index (fst p) = Some j \<and> j < i \<Longrightarrow>
   insert_index i e obj = obj @ [e]"
  by (induction obj) auto

lemma obj_put_last:
  assumes "distinct (ks @ [k])" and "key_order (ks @ [k])" and "map fst obj = ks"
  shows "obj_put obj k v = obj @ [(k, v)]"
proof -
  from assms(3) have "set ks = fst ` set obj"
    by (metis set_map)
  with assms(1) have new: "k \<notin> fst ` set obj"
    by simp
  show ?thesis
  proof (cases "array_index k")
    case None
    with new show ?thesis by (simp add: obj_put_def)
  next
    case (Some i)
    have "insert_index i (k, v) obj = obj @ [(k, v)]"
    proof (rule insert_index_last, rule ballI)
      fix p assume "p \<in> set obj"
      then have "fst p \<in> set ks" using assms(3) by auto
      from key_order_snoc_index[OF assms(2) Some this]
      show "\<exists>j. array_index (fst p) = Some j \<and> j < i" .
    qed
    with new Some show ?thesis by (simp add: obj_put_def)
  qed
qed

lemma foldl_obj_put:
  "obj_ok obj \<Longrightarrow> foldl (\<lambda>acc (k, v). obj_put acc k (g v)) [] obj = map (\<lambda>(k, v). (k, g v)) obj"
proof (induction obj rule: rev_induct)
  case Nil
  show ?case by simp
next
  case (snoc e obj)
  obtain k v where e: "e = (k, v)" by (cases e)
  from snoc.prems have d: "distinct (map fst obj @ [k])" and o: "key_order (map fst obj @ [k])"
    by (simp_all add: obj_ok_def e)
  from d o have "obj_ok obj"
    by (auto simp: obj_ok_def dest: key_order_snoc)
  with snoc.IH have ih: "foldl (\<lambda>acc (k, v). obj_put acc k (g v)) [] obj = map (\<lambda>(k, v). (k, g v)) obj"
    by simp
  have "map fst (map (\<lambda>(k, v). (k, g v)) obj) = map fst obj"
    by (induction obj) auto
  from obj_put_last[OF d o this, of "g v"] show ?case
    by (simp add: e ih)
qed

lemma string_members_map: "string_members (map (\<lambda>(k, v). (k, JString v)) obj) = Some obj"
  by (induction obj) auto

lemma JSON_round_trip:
  "obj_ok obj \<Longrightarrow> JSON_parse (JSON_stringify obj) = Inr (JObject (map (\<lambda>(k, v). (k, JString v)) obj))"
  by (simp add: JSON_parse_def lex_stringify run_object foldl_obj_put del: run.simps)

lemma notes_of_json_round_trip:
  "notes_of_json (JObject (map (\<lambda>(k, v). (k, JString v)) obj)) = Notes obj"
  by (simp add: notes_of_json_def string_members_map)

lemma utf8_text_plain:
  "\<not> is_high_surrogate c \<Longrightarrow> \<not> is_low_surrogate c \<Longrightarrow> utf8_text (c # rest) = c # utf8_text rest"
  by (cases rest) (simp_all add: utf8_unit_def)

lemma utf8_text_plain_list:
  "\<forall>c \<in> set xs. \<not> is_high_surrogate c \<and> \<not> is_low_surrogate c \<Longrightarrow>
   utf8_text (xs @ rest) = xs @ utf8_text rest"
  by (induction xs) (simp_all add: utf8_text_plain)

lemma hex_digit_plain: "d < 16 \<Longrightarrow> \<not> is_high_surrogate (hex_digit d) \<and> \<not> is_low_surrogate (hex_digit d)"
  by (simp add: hex_digit_def is_high_surrogate_def is_low_surrogate_def)

lemma quote_unit_plain:
  "\<forall>x \<in> set (quote_unit c). \<not> is_high_surrogate x \<and> \<not> is_low_surrogate x"
proof -
  have d: "c div 4096 mod 16 < 16" "c div 256 mod 16 < 16" "c div 16 mod 16 < 16" "c mod 16 < 16"
    by simp_all
  have u: "\<forall>x \<in> set (unicode_escape c). \<not> is_high_surrogate x \<and> \<not> is_low_surrogate x"
    using hex_digit_plain[OF d(1)] hex_digit_plain[OF d(2)] hex_digit_plain[OF d(3)] hex_digit_plain[OF d(4)]
    by (simp add: unicode_escape_def) (simp add: is_high_surrogate_def is_low_surrogate_def)
  show ?thesis
  proof (cases "c < 32 \<or> is_high_surrogate c \<or> is_low_surrogate c")
    case True
    with u show ?thesis
      by (simp add: quote_unit_def) (simp add: is_high_surrogate_def is_low_surrogate_def)
  next
    case False
    then show ?thesis
      by (simp add: quote_unit_def) (simp add: is_high_surrogate_def is_low_surrogate_def)
  qed
qed

lemma utf8_text_quote_units:
  "utf8_text (quote_units s @ rest) = quote_units s @ utf8_text rest"
proof (induction s rule: quote_units.induct)
  case 1
  show ?case by simp
next
  case (2 c)
  show ?case
    using utf8_text_plain_list[OF quote_unit_plain] by simp
next
  case (3 a b cs)
  show ?case
  proof (cases "is_high_surrogate a \<and> is_low_surrogate b")
    case True
    with 3(1) show ?thesis by simp
  next
    case False
    then have q: "quote_units (a # b # cs) = quote_unit a @ quote_units (b # cs)"
      by (simp only: quote_units.simps if_not_P if_False)
    from 3(2)[OF False] utf8_text_plain_list[OF quote_unit_plain, of a "quote_units (b # cs) @ rest"]
    show ?thesis
      unfolding q by simp
  qed
qed

lemma plain_ascii: "c < 128 \<Longrightarrow> \<not> is_high_surrogate c \<and> \<not> is_low_surrogate c"
  by (simp add: is_high_surrogate_def is_low_surrogate_def)

lemma utf8_text_QuoteJSONString:
  "utf8_text (QuoteJSONString s @ rest) = QuoteJSONString s @ utf8_text rest"
proof -
  have "utf8_text (34 # quote_units s @ 34 # rest) = 34 # utf8_text (quote_units s @ 34 # rest)"
    by (rule utf8_text_plain) (simp_all add: is_high_surrogate_def is_low_surrogate_def)
  also have "utf8_text (quote_units s @ 34 # rest) = quote_units s @ utf8_text (34 # rest)"
    by (rule utf8_text_quote_units)
  also have "utf8_text (34 # rest) = 34 # utf8_text rest"
    by (rule utf8_text_plain) (simp_all add: is_high_surrogate_def is_low_surrogate_def)
  finally show ?thesis
    by (simp add: QuoteJSONString_def)
qed

lemma utf8_text_member:
  "utf8_text (str ''  '' @ QuoteJSONString k @ str '': '' @ QuoteJSONString v @ rest) =
     str ''  '' @ QuoteJSONString k @ str '': '' @ QuoteJSONString v @ utf8_text rest"
proof -
  have p: "\<forall>c \<in> set (str ''  ''). \<not> is_high_surrogate c \<and> \<not> is_low_surrogate c"
    "\<forall>c \<in> set (str '': ''). \<not> is_high_surrogate c \<and> \<not> is_low_surrogate c"
    by (simp_all add: str_def is_high_surrogate_def is_low_surrogate_def)
  show ?thesis
    by (simp only: utf8_text_plain_list[OF p(1)] utf8_text_plain_list[OF p(2)] utf8_text_QuoteJSONString)
qed

lemma utf8_text_members: "utf8_text (members ms @ rest) = members ms @ utf8_text rest"
proof (induction ms arbitrary: rest rule: members.induct)
  case 1
  show ?case by simp
next
  case (2 k v)
  show ?case
    using utf8_text_member[of k v rest] by simp
next
  case (3 k v m ms)
  have c: "\<forall>c \<in> set [44, 10]. \<not> is_high_surrogate c \<and> \<not> is_low_surrogate c"
    by (simp add: is_high_surrogate_def is_low_surrogate_def)
  have "utf8_text (members ((k, v) # m # ms) @ rest) =
        utf8_text (str ''  '' @ QuoteJSONString k @ str '': '' @ QuoteJSONString v @ ([44, 10] @ members (m # ms) @ rest))"
    by simp
  also have "\<dots> = str ''  '' @ QuoteJSONString k @ str '': '' @ QuoteJSONString v @ utf8_text ([44, 10] @ members (m # ms) @ rest)"
    by (rule utf8_text_member)
  also have "utf8_text ([44, 10] @ members (m # ms) @ rest) = [44, 10] @ utf8_text (members (m # ms) @ rest)"
    by (rule utf8_text_plain_list[OF c])
  finally show ?case
    by (simp add: 3)
qed

lemma utf8_text_stringify: "utf8_text (JSON_stringify obj) = JSON_stringify obj"
proof (cases "obj = []")
  case True
  then show ?thesis
    by (simp add: JSON_stringify_def str_def utf8_unit_def is_high_surrogate_def is_low_surrogate_def)
next
  case False
  have a: "\<forall>c \<in> set [123, 10]. \<not> is_high_surrogate c \<and> \<not> is_low_surrogate c"
    and b: "\<forall>c \<in> set [10, 125]. \<not> is_high_surrogate c \<and> \<not> is_low_surrogate c"
    by (simp_all add: is_high_surrogate_def is_low_surrogate_def)
  have "utf8_text ([123, 10] @ members obj @ [10, 125]) = [123, 10] @ members obj @ utf8_text ([10, 125] @ [])"
    by (simp only: utf8_text_plain_list[OF a] utf8_text_members append_Nil2)
  also have "utf8_text ([10, 125] @ []) = [10, 125] @ utf8_text []"
    by (rule utf8_text_plain_list[OF b])
  finally show ?thesis
    using False by (simp add: JSON_stringify_def)
qed

lemma loadNotes_reads:
  assumes "contents (disk s) (getNotesFilePath context) = Some data" and "\<not> read_fails (disk s)"
    and "JSON_parse data = Inr v"
  shows "notes (loadNotes context s) = notes_of_json v"
  using assms
  by (simp add: loadNotes_def loadNotes_try_def Let_def existsSync_def readFileSync_def emit_def)

subsection \<open>Saving and loading\<close>

text \<open>
  Claim C1. For every notes object of the declared type (string keys, string texts),
  parsing its JSON text gives the object back; and when the disk accepts the write and
  the read, \<^verbatim>\<open>saveNotes\<close> followed by \<^verbatim>\<open>loadNotes\<close> leaves \<^verbatim>\<open>notes\<close> equal to
  it, whatever \<^verbatim>\<open>notes\<close> held when the load began.
\<close>

theorem save_then_load_round_trip:
  assumes "notes s = Notes obj" and "obj_ok obj"
    and "\<not> write_fails (disk s)" and "\<not> read_fails (disk s)"
  shows "JSON_parse (JSON_stringify obj) = Inr (JObject (map (\<lambda>(k, v). (k, JString v)) obj))
       \<and> (\<exists>s'. saveNotes context s = Some s'
             \<and> contents (disk s') (getNotesFilePath context) = Some (JSON_stringify obj)
             \<and> (\<forall>previous. notes (loadNotes context (s'\<lparr>notes := previous\<rparr>)) = Notes obj))"
proof -
  let ?p = "getNotesFilePath context"
  have s: "s\<lparr>notes := Notes obj\<rparr> = s"
    using assms(1) by simp
  have sv: "saveNotes context s = Some (saved context obj s)"
    using saveNotes_typed[where s = s and obj = obj] unfolding s .
  have w: "contents (disk (saved context obj s)) ?p = Some (JSON_stringify obj)"
    "read_fails (disk (saved context obj s)) = read_fails (disk s)"
    using saveNotes_try_writes[OF assms(3), of ?p obj]
    by (simp_all add: saved_def utf8_text_stringify)
  have rt: "JSON_parse (JSON_stringify obj) = Inr (JObject (map (\<lambda>(k, v). (k, JString v)) obj))"
    by (rule JSON_round_trip[OF assms(2)])
  have "notes (loadNotes context ((saved context obj s)\<lparr>notes := previous\<rparr>)) = Notes obj" for previous
  proof -
    have "notes (loadNotes context ((saved context obj s)\<lparr>notes := previous\<rparr>)) =
          notes_of_json (JObject (map (\<lambda>(k, v). (k, JString v)) obj))"
      by (rule loadNotes_reads[where data = "JSON_stringify obj"])
         (simp_all add: w assms(4) rt)
    then show ?thesis
      by (simp add: notes_of_json_round_trip)
  qed
  with sv w(1) rt show ?thesis
    by blast
qed

theorem save_then_load_round_trip_witness:
  "obj_ok [(str ''7'', str ''seven''), (str ''/repo/main.ts::5'', [102, 34, 10, 92, 233])]
   \<and> (\<exists>s'. saveNotes repo_host
               ((initial_state empty_disk)
                  \<lparr>notes := Notes [(str ''7'', str ''seven''), (str ''/repo/main.ts::5'', [102, 34, 10, 92, 233])]\<rparr>)
             = Some s'
          \<and> notes (loadNotes repo_host (s'\<lparr>notes := Notes []\<rparr>)) =
               Notes [(str ''7'', str ''seven''), (str ''/repo/main.ts::5'', [102, 34, 10, 92, 233])])"
proof -
  let ?obj = "[(str ''7'', str ''seven''), (str ''/repo/main.ts::5'', [102, 34, 10, 92, 233])]"
  let ?s = "(initial_state empty_disk)\<lparr>notes := Notes ?obj\<rparr>"
  have ok: "obj_ok ?obj"
    by (simp add: obj_ok_def array_index_def str_def is_digit_def digits_value_def)
  have n: "notes ?s = Notes ?obj"
    by simp
  have w: "\<not> write_fails (disk ?s)" "\<not> read_fails (disk ?s)"
    by (simp_all add: initial_state_def empty_disk_def)
  from save_then_load_round_trip[OF n ok w, of repo_host] ok
  show ?thesis
    by blast
qed

text \<open>
  Claim C7. \<^verbatim>\<open>loadNotes\<close> returns in every case and never changes the disk. When the
  notes file does not exist the notes are left as they are, which is the empty object at
  start-up. When the file exists and its text is not valid JSON, and in fact for every
  exception of the \<^verbatim>\<open>try\<close> block, the exception is caught and logged with
  \<^verbatim>\<open>console.error\<close> and the notes are left as they were.
\<close>

theorem load_never_raises:
  "(\<not> existsSync (disk s) (getNotesFilePath context) \<longrightarrow>
      loadNotes context s =
        s\<lparr>events := events s @ [ConsoleLog ''Loading notes from:'',
                                 ConsoleLog ''No notes file found. Starting with an empty notes object.'']\<rparr>)
   \<and> (\<not> existsSync fs (getNotesFilePath context) \<longrightarrow>
        notes (loadNotes context (initial_state fs)) = Notes [])
   \<and> (\<forall>data e. existsSync (disk s) (getNotesFilePath context)
          \<and> readFileSync (disk s) (getNotesFilePath context) = Inr data
          \<and> JSON_parse data = Inl e \<longrightarrow>
        loadNotes context s =
          s\<lparr>events := events s @ [ConsoleLog ''Loading notes from:'',
                                   ConsoleError ''Failed to load notes:'' e]\<rparr>)
   \<and> (\<forall>e. loadNotes_try (getNotesFilePath context) (emit (ConsoleLog ''Loading notes from:'') s) = Inl e \<longrightarrow>
        loadNotes context s =
          s\<lparr>events := events s @ [ConsoleLog ''Loading notes from:'',
                                   ConsoleError ''Failed to load notes:'' e]\<rparr>)
   \<and> disk (loadNotes context s) = disk s"
proof -
  have 1: "\<not> existsSync (disk s) (getNotesFilePath context) \<longrightarrow>
      loadNotes context s =
        s\<lparr>events := events s @ [ConsoleLog ''Loading notes from:'',
                                 ConsoleLog ''No notes file found. Starting with an empty notes object.'']\<rparr>"
    by (simp add: loadNotes_def loadNotes_try_def Let_def emit_def)
  have 2: "\<not> existsSync fs (getNotesFilePath context) \<longrightarrow>
        notes (loadNotes context (initial_state fs)) = Notes []"
    by (simp add: loadNotes_def loadNotes_try_def Let_def emit_def initial_state_def)
  have 3: "\<forall>data e. existsSync (disk s) (getNotesFilePath context)
          \<and> readFileSync (disk s) (getNotesFilePath context) = Inr data
          \<and> JSON_parse data = Inl e \<longrightarrow>
        loadNotes context s =
          s\<lparr>events := events s @ [ConsoleLog ''Loading notes from:'',
                                   ConsoleError ''Failed to load notes:'' e]\<rparr>"
    by (simp add: loadNotes_def loadNotes_try_def Let_def emit_def)
  have 4: "\<forall>e. loadNotes_try (getNotesFilePath context) (emit (ConsoleLog ''Loading notes from:'') s) = Inl e \<longrightarrow>
        loadNotes context s =
          s\<lparr>events := events s @ [ConsoleLog ''Loading notes from:'',
                                   ConsoleError ''Failed to load notes:'' e]\<rparr>"
    by (simp add: loadNotes_def Let_def emit_def)
  have 5: "disk (loadNotes context s) = disk s"
    by (simp add: loadNotes_def loadNotes_try_def Let_def emit_def split: sum.split)
  from 1 2 3 4 5 show ?thesis
    by blast
qed

theorem load_never_raises_witness:
  "notes (loadNotes repo_host (initial_state empty_disk)) = Notes []
   \<and> JSON_parse (str ''{oops'') = Inl SyntaxError
   \<and> loadNotes repo_host
        \<lparr>notes = Notes [(str ''/repo/main.ts::5'', str ''kept'')], disk = broken_disk, events = []\<rparr> =
      \<lparr>notes = Notes [(str ''/repo/main.ts::5'', str ''kept'')], disk = broken_disk,
        events = [ConsoleLog ''Loading notes from:'', ConsoleError ''Failed to load notes:'' SyntaxError]\<rparr>"
proof -
  let ?s = "\<lparr>notes = Notes [(str ''/repo/main.ts::5'', str ''kept'')], disk = broken_disk, events = []\<rparr>"
  have p: "getNotesFilePath repo_host = Path (str ''/repo'') (str ''.code-notes.json'')"
    by (simp add: getNotesFilePath_def repo_host_def)
  have j: "JSON_parse (str ''{oops'') = Inl SyntaxError"
    by (simp add: JSON_parse_def str_def is_digit_def)
  have a: "\<not> existsSync empty_disk (getNotesFilePath repo_host)"
    by (simp add: existsSync_def empty_disk_def)
  have e: "existsSync (disk ?s) (getNotesFilePath repo_host)"
    "readFileSync (disk ?s) (getNotesFilePath repo_host) = Inr (str ''{oops'')"
    by (simp_all add: p existsSync_def readFileSync_def broken_disk_def empty_disk_def)
  note t = load_never_raises[of ?s repo_host empty_disk]
  have 1: "notes (loadNotes repo_host (initial_state empty_disk)) = Notes []"
    using t a by blast
  have 2: "loadNotes repo_host ?s =
      ?s\<lparr>events := events ?s @ [ConsoleLog ''Loading notes from:'', ConsoleError ''Failed to load notes:'' SyntaxError]\<rparr>"
    using t e j by blast
  from 1 2 j show ?thesis
    by simp
qed

subsection \<open>The invariant of the notes object\<close>

text \<open>
  The hypotheses \<open>obj_ok\<close> and \<open>distinct\<close> of the statements above hold in every state
  the extension reaches: the empty object has the invariant, defining a property keeps
  it, \<^verbatim>\<open>JSON.parse\<close> builds only such objects, and so \<^verbatim>\<open>loadNotes\<close> and both commands
  keep it.
\<close>

lemma mod10_digit: "x < 10 \<Longrightarrow> (10 * (v::nat) + x) mod 10 = x"
  by simp

lemma div10_digit: "x < 10 \<Longrightarrow> (10 * (v::nat) + x) div 10 = v"
  by simp

lemma digits_value_Cons_pos:
  "is_digit c \<Longrightarrow> c \<noteq> 48 \<Longrightarrow> 0 < foldl (\<lambda>a c. 10 * a + (c - 48)) (c - 48) z"
proof (induction z rule: rev_induct)
  case Nil
  then show ?case by (simp add: is_digit_def)
next
  case (snoc d z)
  then show ?case by simp
qed

lemma digits_value_pos:
  "z \<noteq> [] \<Longrightarrow> is_digit (hd z) \<Longrightarrow> hd z \<noteq> 48 \<Longrightarrow> 0 < digits_value z"
  using digits_value_Cons_pos[of "hd z" "tl z"]
  by (cases z) (simp_all add: digits_value_def)

lemma dec_digits_value:
  "z \<noteq> [] \<Longrightarrow> list_all is_digit z \<Longrightarrow> z = [48] \<or> hd z \<noteq> 48 \<Longrightarrow> dec (digits_value z) = z"
proof (induction z rule: rev_induct)
  case Nil
  then show ?case by simp
next
  case (snoc d z)
  from snoc.prems(2) have d: "is_digit d" and zd: "list_all is_digit z"
    by simp_all
  then have d48: "48 \<le> d" "d - 48 < 10"
    by (auto simp: is_digit_def)
  show ?case
  proof (cases "z = []")
    case True
    with d48 show ?thesis
      by (subst dec.simps) (simp add: digits_value_def)
  next
    case False
    with snoc.prems(3) have h: "hd z \<noteq> 48"
      by (cases z) auto
    from False zd have "is_digit (hd z)"
      by (cases z) auto
    from digits_value_pos[OF False this h] have pos: "0 < digits_value z" .
    from snoc.IH[OF False zd] h have ih: "dec (digits_value z) = z"
      by simp
    have v: "digits_value (z @ [d]) = 10 * digits_value z + (d - 48)"
      by (rule digits_value_snoc)
    from pos have big: "\<not> 10 * digits_value z + (d - 48) < 10"
      by simp
    have dv: "(10 * digits_value z + (d - 48)) div 10 = digits_value z"
      by (rule div10_digit[OF d48(2)])
    have md: "(10 * digits_value z + (d - 48)) mod 10 = d - 48"
      by (rule mod10_digit[OF d48(2)])
    show ?thesis
      unfolding v
      by (subst dec.simps) (simp only: big if_False dv md ih, simp add: d48)
  qed
qed

lemma array_index_inj:
  assumes "array_index k = Some i" and "array_index k' = Some i"
  shows "k = k'"
proof -
  from assms(1) have k: "k \<noteq> []" "list_all is_digit k" "k = [48] \<or> hd k \<noteq> 48" "digits_value k = i"
    by (auto simp: array_index_def split: if_splits)
  from assms(2) have k': "k' \<noteq> []" "list_all is_digit k'" "k' = [48] \<or> hd k' \<noteq> 48" "digits_value k' = i"
    by (auto simp: array_index_def split: if_splits)
  from dec_digits_value[OF k(1-3)] dec_digits_value[OF k'(1-3)] k(4) k'(4)
  show ?thesis by simp
qed

lemma key_order_append_plain:
  "key_order ks \<Longrightarrow> array_index k = None \<Longrightarrow> key_order (ks @ [k])"
  by (induction ks) (auto split: option.splits simp: list_all_iff)

lemma key_order_insert_index:
  assumes "key_order (map fst obj)" and "array_index k = Some i"
    and "\<forall>p \<in> set obj. array_index (fst p) \<noteq> Some i"
  shows "key_order (map fst (insert_index i (k, v) obj))"
  using assms
proof (induction obj)
  case Nil
  then show ?case by simp
next
  case (Cons p ps)
  show ?case
  proof (cases "array_index (fst p)")
    case None
    with Cons.prems show ?thesis
      by (auto simp: list_all_iff)
  next
    case (Some j)
    show ?thesis
    proof (cases "j < i")
      case True
      from Cons.prems have "key_order (map fst (insert_index i (k, v) ps))"
        by (intro Cons.IH) (auto split: option.splits)
      with True Some Cons.prems show ?thesis
        by (auto simp: list_all_iff set_insert_index split: option.splits)
    next
      case False
      with Cons.prems(3) Some have "i < j"
        by auto
      with False Some Cons.prems show ?thesis
        by (fastforce simp: list_all_iff split: option.splits)
    qed
  qed
qed

lemma obj_ok_obj_put:
  assumes "obj_ok obj"
  shows "obj_ok (obj_put obj k v)"
proof (cases "k \<in> fst ` set obj")
  case True
  then have "map fst (obj_put obj k v) = map fst obj"
    by (simp add: obj_put_def keys_replace)
  with assms show ?thesis
    by (simp add: obj_ok_def)
next
  case False
  from assms have d: "distinct (map fst obj)" and o: "key_order (map fst obj)"
    by (simp_all add: obj_ok_def)
  show ?thesis
  proof (cases "array_index k")
    case None
    with False d key_order_append_plain[OF o None] show ?thesis
      by (simp add: obj_ok_def obj_put_def)
  next
    case (Some i)
    have "\<forall>p \<in> set obj. array_index (fst p) \<noteq> Some i"
    proof
      fix p assume p: "p \<in> set obj"
      show "array_index (fst p) \<noteq> Some i"
      proof
        assume "array_index (fst p) = Some i"
        from array_index_inj[OF Some this] p False show False
          by auto
      qed
    qed
    from key_order_insert_index[OF o Some this] distinct_insert_index[OF d, of "(k, v)" i] False Some
    show ?thesis
      by (simp add: obj_ok_def obj_put_def)
  qed
qed

lemma deliver_ok:
  assumes "list_all frame_ok fs" and "value_ok v" and "deliver v fs = Some (e', fs')"
  shows "list_all frame_ok fs' \<and> expect_ok e'"
proof (cases fs)
  case Nil
  with assms show ?thesis by (auto simp: expect_ok_def)
next
  case (Cons f fs0)
  with assms show ?thesis
    by (cases f) (auto simp: expect_ok_def obj_ok_obj_put)
qed

lemma begin_value_ok:
  assumes "list_all frame_ok fs" and "begin_value t fs = Some (e', fs')"
  shows "list_all frame_ok fs' \<and> expect_ok e'"
proof (cases t)
  case LBrace
  with assms show ?thesis by (auto simp: begin_value_def expect_ok_def obj_ok_def)
next
  case LBracket
  with assms show ?thesis by (auto simp: begin_value_def expect_ok_def)
next
  case (TString s)
  with assms deliver_ok[OF assms(1), of "JString s" e' fs'] show ?thesis
    by (simp add: begin_value_def value_ok_def)
next
  case (TNumber n)
  with assms deliver_ok[OF assms(1), of "JNumber n" e' fs'] show ?thesis
    by (simp add: begin_value_def value_ok_def)
next
  case TTrue
  with assms deliver_ok[OF assms(1), of "JBool True" e' fs'] show ?thesis
    by (simp add: begin_value_def value_ok_def)
next
  case TFalse
  with assms deliver_ok[OF assms(1), of "JBool False" e' fs'] show ?thesis
    by (simp add: begin_value_def value_ok_def)
next
  case TNull
  with assms deliver_ok[OF assms(1), of JNull e' fs'] show ?thesis
    by (simp add: begin_value_def value_ok_def)
qed (use assms in \<open>simp_all add: begin_value_def\<close>)

lemma step_ok:
  assumes "list_all frame_ok fs" and "step e fs t = Some (e', fs')"
  shows "list_all frame_ok fs' \<and> expect_ok e'"
proof (cases e)
  case Value
  with assms begin_value_ok show ?thesis by (simp add: step_def)
next
  case ValueOrClose
  show ?thesis
  proof (cases "\<exists>es fs0. t = RBracket \<and> fs = InArray es # fs0")
    case True
    then obtain es fs0 where x: "t = RBracket" "fs = InArray es # fs0" by blast
    with assms ValueOrClose deliver_ok[of fs0 "JArray es" e' fs'] show ?thesis
      by (simp add: step_def value_ok_def)
  next
    case False
    with assms ValueOrClose have "begin_value t fs = Some (e', fs')"
      by (auto simp: step_def split: token.splits list.splits frame.splits)
    with assms(1) begin_value_ok show ?thesis by blast
  qed
next
  case KeyOrClose
  with assms show ?thesis
    using deliver_ok[of _ "JObject _" e' fs']
    by (auto simp: step_def expect_ok_def value_ok_def split: token.splits list.splits frame.splits)
next
  case Key
  with assms show ?thesis
    by (auto simp: step_def expect_ok_def split: token.splits list.splits frame.splits)
next
  case ColonNext
  with assms show ?thesis
    by (auto simp: step_def expect_ok_def split: token.splits)
next
  case CommaOrClose
  with assms show ?thesis
    using deliver_ok[of _ "JObject _" e' fs'] deliver_ok[of _ "JArray _" e' fs']
    by (auto simp: step_def expect_ok_def value_ok_def split: token.splits list.splits frame.splits)
next
  case (End v)
  with assms show ?thesis by (simp add: step_def)
qed

lemma run_ok:
  "list_all frame_ok fs \<Longrightarrow> expect_ok e \<Longrightarrow> run e fs ts = Some v \<Longrightarrow> value_ok v"
proof (induction ts arbitrary: e fs)
  case Nil
  then show ?case
    by (auto simp: expect_ok_def split: expect.splits)
next
  case (Cons t ts)
  from Cons.prems(3) obtain e' fs' where s: "step e fs t = Some (e', fs')" and r: "run e' fs' ts = Some v"
    by (auto split: option.splits)
  from step_ok[OF Cons.prems(1) s] Cons.IH[OF _ _ r] show ?case
    by blast
qed

lemma JSON_parse_ok: "JSON_parse text = Inr v \<Longrightarrow> value_ok v"
  using run_ok[of "[]" Value]
  by (auto simp: JSON_parse_def expect_ok_def split: option.splits)

lemma string_members_keys: "string_members ms = Some obj \<Longrightarrow> map fst obj = map fst ms"
  by (induction ms arbitrary: obj rule: string_members.induct) auto

lemma notes_of_json_ok:
  assumes "value_ok v" and "notes_of_json v = Notes obj"
  shows "obj_ok obj"
proof -
  from assms(2) obtain ms where v: "v = JObject ms" and m: "string_members ms = Some obj"
    by (auto simp: notes_of_json_def split: json.splits option.splits)
  from assms(1) v have "obj_ok ms"
    by (simp add: value_ok_def)
  with string_members_keys[OF m] show ?thesis
    by (simp add: obj_ok_def)
qed

lemma notes_ok_initial: "notes_ok (initial_state fs)"
  by (simp add: notes_ok_def initial_state_def obj_ok_def)

lemma notes_ok_loadNotes:
  assumes "notes_ok s"
  shows "notes_ok (loadNotes context s)"
proof (cases "loadNotes_try (getNotesFilePath context) (emit (ConsoleLog ''Loading notes from:'') s)")
  case (Inl e)
  with assms show ?thesis
    by (simp add: loadNotes_def Let_def notes_ok_def emit_def)
next
  case (Inr s2)
  have "notes_ok s2"
  proof (cases "notes s2")
    case (Foreign v)
    then show ?thesis by (simp add: notes_ok_def)
  next
    case (Notes obj)
    show ?thesis
    proof (cases "notes s2 = notes s")
      case True
      with assms show ?thesis by (simp add: notes_ok_def)
    next
      case False
      with Inr obtain data v where "JSON_parse data = Inr v" and "notes s2 = notes_of_json v"
        by (auto simp: loadNotes_try_def emit_def split: if_splits sum.splits)
      with Notes notes_of_json_ok[OF JSON_parse_ok] show ?thesis
        by (simp add: notes_ok_def)
    qed
  qed
  with Inr show ?thesis
    by (simp add: loadNotes_def Let_def)
qed

lemma notes_ok_addNote:
  assumes "notes_ok s" and "addNote unicode_lower context answer s = Some s'"
  shows "notes_ok s'"
proof (cases "notes s' = notes s")
  case True
  with assms(1) show ?thesis by (simp add: notes_ok_def)
next
  case False
  from assms(2) False obtain editor entered obj where a: "activeTextEditor context = Some editor"
    "answer = Some entered" "entered \<noteq> []" "notes s = Notes obj"
    by (auto simp: addNote_def Let_def emit_def split: option.splits if_splits notes_value.splits)
  from addNote_notes[where unicode_lower = unicode_lower, OF a(1) a(4) a(3)] assms a(2) obj_ok_obj_put[of obj]
  show ?thesis
    by (auto simp: notes_ok_def a(4))
qed

lemma notes_ok_editNote:
  assumes "notes_ok s" and "editNote unicode_lower context args answer s = Some s'"
  shows "notes_ok s'"
proof -
  have same: "notes s' = notes s \<Longrightarrow> ?thesis"
    using assms(1) by (simp add: notes_ok_def)
  show ?thesis
  proof (cases args)
    case None
    with assms(2) show ?thesis
      by (intro same) (auto simp: editNote_def emit_def)
  next
    case (Some a)
    show ?thesis
    proof (cases "arg_filePath a")
      case None
      with Some assms(2) show ?thesis
        by (intro same) (auto simp: editNote_def emit_def)
    next
      case f: (Some f)
      show ?thesis
      proof (cases "arg_line a")
        case None
        with Some f assms(2) show ?thesis
          by (intro same) (auto simp: editNote_def emit_def)
      next
        case n: (Some n)
        from f n have a: "a = \<lparr>arg_filePath = Some f, arg_line = Some n\<rparr>"
          by (cases a) simp
        show ?thesis
        proof (cases "notes s")
          case (Foreign v)
          with Some a assms(2) show ?thesis
            by (simp add: editNote_def Let_def)
        next
          case (Notes obj)
          show ?thesis
          proof (cases answer)
            case None
            with Some a Notes assms(2) show ?thesis
              by (intro same) (auto simp: editNote_def Let_def emit_def)
          next
            case entered: (Some entered)
            from editNote_notes[where unicode_lower = unicode_lower, OF Notes, of "context" f n entered] assms Some a entered
              obj_ok_obj_put[of obj]
            show ?thesis
              by (auto simp: notes_ok_def Notes)
          qed
        qed
      qed
    qed
  qed
qed

end
